theory Spec2Isabelle
  imports Complex_Main
begin

section \<open>Shared types\<close>

text \<open>
  A JavaScript exception is a value carrying its message. A call that may throw returns
  \<open>error + 'a\<close>, with \<open>Inl\<close> the thrown error.
\<close>

datatype error = Error string

text \<open>
  What \<open>await fetch(url)\<close> delivers when it does not reject: the \<open>ok\<close> flag, the status
  and the outcome of \<open>response.json()\<close>, which may itself reject.
\<close>

record 'a response =
  ok :: bool
  status :: nat
  json :: "error + 'a"

section \<open>Price oracle cache (server/kpis.js, getEthPrice)\<close>

text \<open>
  \<open>let ethPriceCache = { price: null, timestamp: 0 }\<close>. Times are milliseconds since the
  epoch, as \<open>Date.now()\<close> returns them. A price is carried through unchanged by the code,
  never computed with, so it is a real number here; \<open>null\<close> is \<open>None\<close>.
\<close>

record ethPriceCache =
  price :: "real option"
  timestamp :: int

definition initialCache :: ethPriceCache where
  "initialCache = \<lparr>price = None, timestamp = 0\<rparr>"

definition PRICE_CACHE_TTL :: int where
  "PRICE_CACHE_TTL = 5 * 60 * 1000"

text \<open>JavaScript truthiness of a number-or-null: \<open>null\<close>, \<open>undefined\<close> and \<open>0\<close> are falsy.\<close>

fun truthy :: "real option \<Rightarrow> bool" where
  "truthy None = False"
| "truthy (Some p) = (p \<noteq> 0)"

text \<open>
  Lines 51 to 62: the upstream call. The argument is the outcome of \<open>fetch\<close>; the payload of
  the body is \<open>data.ethereum?.usd\<close>, \<open>None\<close> when the field is missing.
\<close>

definition refresh :: "error + real option response \<Rightarrow> error + real" where
  "refresh upstream =
     (case upstream of
        Inl e \<Rightarrow> Inl e
      | Inr r \<Rightarrow>
          if \<not> ok r then Inl (Error ''CoinGecko API error'')
          else (case json r of
                  Inl e \<Rightarrow> Inl e
                | Inr p \<Rightarrow>
                    if \<not> truthy p then Inl (Error ''ETH price not found in response'')
                    else Inr (the p)))"

text \<open>
  The outcome of one call: the value returned, the cache afterwards and whether the
  upstream was called.
\<close>

record priceOutcome =
  returned :: real
  cacheAfter :: ethPriceCache
  upstreamCalled :: bool

definition getEthPrice ::
  "int \<Rightarrow> ethPriceCache \<Rightarrow> error + real option response \<Rightarrow> priceOutcome" where
  "getEthPrice now cache upstream =
     (if truthy (price cache) \<and> now - timestamp cache < PRICE_CACHE_TTL
      then \<lparr>returned = the (price cache), cacheAfter = cache, upstreamCalled = False\<rparr>
      else (case refresh upstream of
              Inr p \<Rightarrow>
                \<lparr>returned = p, cacheAfter = \<lparr>price = Some p, timestamp = now\<rparr>,
                 upstreamCalled = True\<rparr>
            | Inl e \<Rightarrow>
                if truthy (price cache)
                then \<lparr>returned = the (price cache), cacheAfter = cache, upstreamCalled = True\<rparr>
                else \<lparr>returned = 3000, cacheAfter = cache, upstreamCalled = True\<rparr>))"

section \<open>Persisted documents (imports/api/collections.js)\<close>

text \<open>
  AddressActivityCollection holds \<open>{ address, timestamp, blockNumber }\<close>. A \<open>Date\<close> is its
  millisecond value. Field names carry a prefix because several collections share them.
\<close>

record activity =
  a_address :: string
  a_timestamp :: int
  a_blockNumber :: nat

text \<open>
  DailyTransactionsCollection and WeeklyActiveAddressesCollection hold
  \<open>{ date, count, timestamp, updatedAt }\<close>.
\<close>

record snapshot =
  s_date :: int
  s_count :: nat
  s_timestamp :: int
  s_updatedAt :: int

section \<open>Weekly active addresses (server/kpis.js, calculateWeeklyActiveAddresses)\<close>

definition SYSTEM_ADDRESSES :: "string list" where
  "SYSTEM_ADDRESSES =
     [''0x0000000000000000000000000000000000000000'',
      ''0x0000000000000000000000000000000000000001'',
      ''0x0000000000000000000000000000000000000002'',
      ''0x0000000000000000000000000000000000000064'',
      ''0x0000000000000000000000000000000000000065'',
      ''0x0000000000000000000000000000000000000066'',
      ''0x0000000000000000000000000000000000000067'',
      ''0x0000000000000000000000000000000000000068'',
      ''0x000000000000000000000000000000000000006b'',
      ''0x000000000000000000000000000000000000006c'',
      ''0x000000000000000000000000000000000000006d'',
      ''0x000000000000000000000000000000000000006e'',
      ''0x000000000000000000000000000000000000006f'',
      ''0x0000000000000000000000000000000000000070'',
      ''0x0000000000000000000000000000000000000071'',
      ''0x0000000000000000000000000000000000000072'',
      ''0x0000000000000000000000000000000000000073'',
      ''0x00000000000000000000000000000000000a4b05'']"

text \<open>
  The aggregation pipeline, stage by stage. \<open>$group\<close> on \<open>$address\<close> yields one document
  per distinct address (its \<open>_id\<close>); \<open>$count\<close> yields one document holding the number of
  its input documents, and none at all when there is no input.
\<close>

definition groupStage :: "activity list \<Rightarrow> string list" where
  "groupStage docs = remdups (map a_address docs)"

definition countStage :: "'a list \<Rightarrow> nat list" where
  "countStage docs = (if docs = [] then [] else [length docs])"

text \<open>\<open>result.length > 0 ? result[0].uniqueAddresses : 0\<close>\<close>

definition uniqueAddresses :: "nat list \<Rightarrow> nat" where
  "uniqueAddresses result = (case result of [] \<Rightarrow> 0 | c # _ \<Rightarrow> c)"

definition weeklyMatch :: "int \<Rightarrow> activity \<Rightarrow> bool" where
  "weeklyMatch sevenDaysAgo e =
     (sevenDaysAgo \<le> a_timestamp e \<and> a_address e \<notin> set SYSTEM_ADDRESSES)"

text \<open>
  The second argument is what the aggregation runs on: the documents of the collection, or
  the error with which the query rejects. The catch block returns \<open>{ count: 0 }\<close>.
\<close>

definition calculateWeeklyActiveAddresses :: "int \<Rightarrow> error + activity list \<Rightarrow> nat" where
  "calculateWeeklyActiveAddresses now collection =
     (case collection of
        Inl e \<Rightarrow> 0
      | Inr docs \<Rightarrow>
          (let sevenDaysAgo = now - 7 * 24 * 60 * 60 * 1000;
               result = countStage (groupStage (filter (weeklyMatch sevenDaysAgo) docs))
           in uniqueAddresses result))"

text \<open>Addresses active eight, six and one day before 1700000000000.\<close>

definition rollingWindowDocs :: "activity list" where
  "rollingWindowDocs =
     [\<lparr>a_address = ''0xaaa'', a_timestamp = 1700000000000 - 8 * 86400000, a_blockNumber = 1\<rparr>,
      \<lparr>a_address = ''0xbbb'', a_timestamp = 1700000000000 - 6 * 86400000, a_blockNumber = 2\<rparr>,
      \<lparr>a_address = ''0xccc'', a_timestamp = 1700000000000 - 1 * 86400000, a_blockNumber = 3\<rparr>]"

section \<open>History backfill (server/kpis.js, backfillDailyTransactionHistory and
  backfillWeeklyActiveAddressHistory)\<close>

text \<open>
  The two local-time operations of \<open>Date\<close> that the backfill uses are parameters:
  \<open>addDays d k\<close> is \<open>d.setDate(d.getDate() + k)\<close>, the same local time of day \<open>k\<close> calendar
  days later, and \<open>startOfDay d\<close> is \<open>d.setHours(0, 0, 0, 0)\<close>. \<open>utc\<close> is the calendar of
  a server running in UTC.
\<close>

record calendar =
  addDays :: "int \<Rightarrow> int \<Rightarrow> int"
  startOfDay :: "int \<Rightarrow> int"

definition utc :: calendar where
  "utc = \<lparr>addDays = (\<lambda>d k. d + k * 86400000), startOfDay = (\<lambda>d. d - d mod 86400000)\<rparr>"

text \<open>
  What a backfill run reads: the clock, the calendar, the activity documents (never
  written here), and which database calls reject. A count query is identified by the day
  it asks about, an insert by its document. The clock is read once: every \<open>new Date()\<close>
  of a run gives the same instant.
\<close>

record histEnv =
  clock :: int
  cal :: calendar
  activityDocs :: "activity list"
  queryFails :: "int \<Rightarrow> bool"
  insertFails :: "snapshot \<Rightarrow> bool"

definition dayStart :: "histEnv \<Rightarrow> int \<Rightarrow> int" where
  "dayStart env i = startOfDay (cal env) (addDays (cal env) (clock env) (- i))"

definition dailySnapshot :: "histEnv \<Rightarrow> int \<Rightarrow> snapshot" where
  "dailySnapshot env i =
     (let date = dayStart env i;
          nextDay = addDays (cal env) date 1;
          count = length (filter (\<lambda>e. date \<le> a_timestamp e \<and> a_timestamp e < nextDay)
                    (activityDocs env))
      in \<lparr>s_date = date, s_count = count, s_timestamp = date + 12 * 60 * 60 * 1000,
          s_updatedAt = clock env\<rparr>)"

function dailyLoop ::
  "histEnv \<Rightarrow> int \<Rightarrow> int \<Rightarrow> nat \<Rightarrow> snapshot list \<Rightarrow> (error + nat) \<times> snapshot list" where
  "dailyLoop env days i snapshotsCreated coll =
     (if i < days then
        if queryFails env (dayStart env i) then (Inl (Error ''count failed''), coll)
        else if insertFails env (dailySnapshot env i) then (Inl (Error ''insert failed''), coll)
        else dailyLoop env days (i + 1) (snapshotsCreated + 1) (coll @ [dailySnapshot env i])
      else (Inr snapshotsCreated, coll))"
  by pat_completeness auto
termination
  by (relation "measure (\<lambda>(env, days, i, n, coll). nat (days - i))") auto

declare dailyLoop.simps [simp del]

text \<open>The result is the number returned and the snapshot collection afterwards.\<close>

definition backfillDailyTransactionHistory ::
  "histEnv \<Rightarrow> int \<Rightarrow> snapshot list \<Rightarrow> nat \<times> snapshot list" where
  "backfillDailyTransactionHistory env days coll =
     (case dailyLoop env days 0 0 coll of
        (Inl e, coll') \<Rightarrow> (0, coll')
      | (Inr snapshotsCreated, coll') \<Rightarrow> (snapshotsCreated, coll'))"

definition weeklySnapshot :: "histEnv \<Rightarrow> int \<Rightarrow> snapshot" where
  "weeklySnapshot env i =
     (let snapshotDate = dayStart env i;
          sevenDaysBefore = addDays (cal env) snapshotDate (- 7);
          snapshotEndOfDay = addDays (cal env) snapshotDate 1;
          result = countStage (groupStage (filter
                     (\<lambda>e. sevenDaysBefore \<le> a_timestamp e \<and> a_timestamp e < snapshotEndOfDay \<and>
                          a_address e \<notin> set SYSTEM_ADDRESSES) (activityDocs env)));
          count = uniqueAddresses result
      in \<lparr>s_date = snapshotDate, s_count = count,
          s_timestamp = snapshotDate + 12 * 60 * 60 * 1000, s_updatedAt = clock env\<rparr>)"

function weeklyLoop ::
  "histEnv \<Rightarrow> int \<Rightarrow> int \<Rightarrow> nat \<Rightarrow> snapshot list \<Rightarrow> (error + nat) \<times> snapshot list" where
  "weeklyLoop env days i snapshotsCreated coll =
     (if i < days then
        if queryFails env (dayStart env i) then (Inl (Error ''aggregate failed''), coll)
        else if insertFails env (weeklySnapshot env i) then (Inl (Error ''insert failed''), coll)
        else weeklyLoop env days (i + 1) (snapshotsCreated + 1) (coll @ [weeklySnapshot env i])
      else (Inr snapshotsCreated, coll))"
  by pat_completeness auto
termination
  by (relation "measure (\<lambda>(env, days, i, n, coll). nat (days - i))") auto

declare weeklyLoop.simps [simp del]

definition backfillWeeklyActiveAddressHistory ::
  "histEnv \<Rightarrow> int \<Rightarrow> snapshot list \<Rightarrow> nat \<times> snapshot list" where
  "backfillWeeklyActiveAddressHistory env days coll =
     (case weeklyLoop env days 0 0 coll of
        (Inl e, coll') \<Rightarrow> (0, coll')
      | (Inr snapshotsCreated, coll') \<Rightarrow> (snapshotsCreated, coll'))"

definition exampleHistEnv :: histEnv where
  "exampleHistEnv =
     \<lparr>clock = 1700000000000, cal = utc,
      activityDocs =
        [\<lparr>a_address = ''0xaaa'', a_timestamp = 1700000000000 - 1000, a_blockNumber = 10\<rparr>,
         \<lparr>a_address = ''0xbbb'', a_timestamp = 1700000000000 - 2 * 86400000, a_blockNumber = 8\<rparr>,
         \<lparr>a_address = ''0xaaa'', a_timestamp = 1700000000000 - 5 * 86400000, a_blockNumber = 5\<rparr>,
         \<lparr>a_address = ''0xccc'', a_timestamp = 1700000000000 - 5 * 86400000 + 5,
          a_blockNumber = 5\<rparr>],
      queryFails = (\<lambda>d. False), insertFails = (\<lambda>s. False)\<rparr>"

text \<open>
  The same run with a database that rejects the insert of the snapshot of the third day.
\<close>

definition failingHistEnv :: histEnv where
  "failingHistEnv = exampleHistEnv\<lparr>insertFails := (\<lambda>s. s_date s = 1699747200000)\<rparr>"

section \<open>Chain client and database (server/blockchain.js, imports/api/collections.js)\<close>

text \<open>
  BridgeActivityCollection holds
  \<open>{ txHash, type, from, to, value, timestamp, blockNumber, l2TxHash }\<close>. The value is in
  ETH; the rounding of JavaScript's doubles is not modelled, the quotient is exact.
\<close>

record bridge =
  b_txHash :: string
  b_type :: string
  b_from :: string
  b_to :: "string option"
  b_value :: real
  b_timestamp :: int
  b_blockNumber :: nat
  b_l2TxHash :: string

text \<open>
  What \<open>provider.getTransaction\<close> and \<open>provider.getBlock\<close> resolve to. \<open>tx.value\<close> is a
  BigNumber object, always truthy, whose \<open>Number\<close> is positive exactly when the amount in
  wei is; \<open>block.timestamp\<close> is in seconds and falsy when 0.
\<close>

record tx =
  tx_from :: "string option"
  tx_to :: "string option"
  tx_value :: nat
  tx_type :: "nat option"

record block =
  blk_timestamp :: nat
  blk_transactions :: "string list option"

text \<open>One item of the explorer's internal-transactions answer, \<open>{ from: { hash }, value }\<close>.\<close>

datatype weiString = Absent | Malformed | Wei nat

record internalTx =
  itx_from :: "string option"
  itx_value :: weiString

text \<open>
  Everything outside the process: the settings, the RPC provider, the explorer, the clock,
  and which database calls reject. Each is a function of its argument, so a call repeated
  within one run is answered the same way. An insert is identified by its document, a lookup by
  its key, an update by the \<open>_id\<close> of its document, which is the position of the document
  in the collection.
\<close>

record backfillConfig =
  enabled :: bool
  blockCount :: int

record world =
  getProvider :: "error + unit"
  getBlockNumber :: "error + nat"
  getBlock :: "nat \<Rightarrow> error + block option"
  getTransaction :: "string \<Rightarrow> error + tx option"
  getTransactionReceipt :: "string \<Rightarrow> error + unit"
  internalTransactions :: "string \<Rightarrow> error + internalTx list option response"
  newDate :: int
  bridgeActivitySettings :: "backfillConfig option"
  findLastActivityFails :: bool
  insertActivityFails :: "activity \<Rightarrow> bool"
  findBridgeFails :: "string \<Rightarrow> bool"
  insertBridgeFails :: "bridge \<Rightarrow> bool"
  findZeroDepositsFails :: bool
  updateBridgeFails :: "nat \<Rightarrow> bool"

record db =
  addressActivity :: "activity list"
  bridgeActivity :: "bridge list"

definition insertActivity :: "world \<Rightarrow> activity \<Rightarrow> db \<Rightarrow> error + db" where
  "insertActivity w doc d =
     (if insertActivityFails w doc then Inl (Error ''insert failed'')
      else Inr (d\<lparr>addressActivity := addressActivity d @ [doc]\<rparr>))"

definition insertBridge :: "world \<Rightarrow> bridge \<Rightarrow> db \<Rightarrow> error + db" where
  "insertBridge w doc d =
     (if insertBridgeFails w doc then Inl (Error ''insert failed'')
      else Inr (d\<lparr>bridgeActivity := bridgeActivity d @ [doc]\<rparr>))"

text \<open>\<open>BridgeActivityCollection.findOneAsync({ txHash })\<close>\<close>

definition findBridge :: "world \<Rightarrow> string \<Rightarrow> db \<Rightarrow> error + bridge option" where
  "findBridge w txHash d =
     (if findBridgeFails w txHash then Inl (Error ''find failed'')
      else Inr (find (\<lambda>b. b_txHash b = txHash) (bridgeActivity d)))"

text \<open>
  \<open>AddressActivityCollection.findOneAsync({}, { sort: { blockNumber: -1 }, limit: 1 })\<close>:
  a document whose block number is the greatest, none when the collection is empty.
\<close>

fun greatestBlock :: "activity list \<Rightarrow> activity option" where
  "greatestBlock [] = None"
| "greatestBlock (a # as) =
     (case greatestBlock as of
        None \<Rightarrow> Some a
      | Some b \<Rightarrow> if a_blockNumber b \<le> a_blockNumber a then Some a else Some b)"

definition findLastActivity :: "world \<Rightarrow> db \<Rightarrow> error + activity option" where
  "findLastActivity w d =
     (if findLastActivityFails w then Inl (Error ''find failed'')
      else Inr (greatestBlock (addressActivity d)))"

section \<open>Event classification (server/kpis.js)\<close>

text \<open>
  \<open>String.prototype.toLowerCase\<close> on ASCII text, which is what an address is written
  in: the letters A to Z are replaced, every other character is kept.
\<close>

definition lowerChar :: "char \<Rightarrow> char" where
  "lowerChar c =
     (case map_of (zip ''ABCDEFGHIJKLMNOPQRSTUVWXYZ'' ''abcdefghijklmnopqrstuvwxyz'') c of
        Some l \<Rightarrow> l
      | None \<Rightarrow> c)"

definition toLowerCase :: "string \<Rightarrow> string" where
  "toLowerCase s = map lowerChar s"

definition ARBSYS_ADDRESS :: string where
  "ARBSYS_ADDRESS = ''0x0000000000000000000000000000000000000064''"

definition ZERO_ADDRESS :: string where
  "ZERO_ADDRESS = ''0x0000000000000000000000000000000000000000''"

text \<open>
  \<open>data.items.find(tx => tx.from.hash === '0x00...00')\<close>: the first item from the zero
  address. Reading \<open>.hash\<close> of a missing \<open>from\<close> throws inside the callback.
\<close>

fun findDepositTransfer :: "internalTx list \<Rightarrow> error + internalTx option" where
  "findDepositTransfer [] = Inr None"
| "findDepositTransfer (x # xs) =
     (case itx_from x of
        None \<Rightarrow> Inl (Error ''Cannot read properties of null'')
      | Some h \<Rightarrow> if h = ZERO_ADDRESS then Inr (Some x) else findDepositTransfer xs)"

text \<open>Lines 86 to 119. Every failure, thrown or not, yields 0.\<close>

definition fetchDepositAmount :: "world \<Rightarrow> string \<Rightarrow> real" where
  "fetchDepositAmount w txHash =
     (case internalTransactions w txHash of
        Inl e \<Rightarrow> 0
      | Inr r \<Rightarrow>
          if \<not> ok r then 0
          else (case json r of
                  Inl e \<Rightarrow> 0
                | Inr None \<Rightarrow> 0
                | Inr (Some items) \<Rightarrow>
                    if items = [] then 0
                    else (case findDepositTransfer items of
                            Inl e \<Rightarrow> 0
                          | Inr None \<Rightarrow> 0
                          | Inr (Some depositTransfer) \<Rightarrow>
                              (case itx_value depositTransfer of
                                 Absent \<Rightarrow> 0
                               | Malformed \<Rightarrow> 0
                               | Wei valueInWei \<Rightarrow> real valueInWei / 10 ^ 18))))"

text \<open>\<open>tx.to ? tx.to.toLowerCase() : null\<close>; the empty string is falsy.\<close>

definition lowerTo :: "tx \<Rightarrow> string option" where
  "lowerTo t =
     (case tx_to t of
        None \<Rightarrow> None
      | Some g \<Rightarrow> if g = [] then None else Some (toLowerCase g))"

definition activityDoc :: "string \<Rightarrow> int \<Rightarrow> nat \<Rightarrow> activity" where
  "activityDoc f blockTimestamp i =
     \<lparr>a_address = toLowerCase f, a_timestamp = blockTimestamp, a_blockNumber = i\<rparr>"

definition depositDoc :: "world \<Rightarrow> string \<Rightarrow> tx \<Rightarrow> string \<Rightarrow> int \<Rightarrow> nat \<Rightarrow> bridge" where
  "depositDoc w txHash t f blockTimestamp i =
     \<lparr>b_txHash = txHash, b_type = ''deposit'', b_from = toLowerCase f, b_to = lowerTo t,
      b_value = fetchDepositAmount w txHash, b_timestamp = blockTimestamp,
      b_blockNumber = i, b_l2TxHash = txHash\<rparr>"

definition withdrawalDoc :: "string \<Rightarrow> tx \<Rightarrow> string \<Rightarrow> int \<Rightarrow> nat \<Rightarrow> bridge" where
  "withdrawalDoc txHash t f blockTimestamp i =
     \<lparr>b_txHash = txHash, b_type = ''withdrawal'', b_from = toLowerCase f,
      b_to = Some ARBSYS_ADDRESS, b_value = real (tx_value t) / 10 ^ 18,
      b_timestamp = blockTimestamp, b_blockNumber = i, b_l2TxHash = txHash\<rparr>"

text \<open>\<open>tx.type === 105\<close>\<close>

definition isDeposit :: "tx \<Rightarrow> bool" where
  "isDeposit t = (tx_type t = Some 105)"

text \<open>
  \<open>tx.to && tx.to.toLowerCase() === ARBSYS_ADDRESS && tx.value && Number(tx.value) > 0\<close>
\<close>

definition isWithdrawal :: "tx \<Rightarrow> bool" where
  "isWithdrawal t = (lowerTo t = Some ARBSYS_ADDRESS \<and> 0 < tx_value t)"

text \<open>
  \<open>block.timestamp ? new Date(block.timestamp * 1000) : new Date()\<close>
\<close>

definition blockTimestampOf :: "world \<Rightarrow> block \<Rightarrow> int" where
  "blockTimestampOf w b =
     (if blk_timestamp b \<noteq> 0 then int (blk_timestamp b) * 1000 else newDate w)"

section \<open>Incremental scan (server/kpis.js, processNewBlocks)\<close>

text \<open>
  Lines 275 to 298, the inner try. The receipt is fetched and discarded. After the insert
  the statement \<open>depositsDetected++\<close> names a variable that is declared nowhere, so it
  throws a ReferenceError, which the inner catch swallows: the inserted document stays.
\<close>

definition processNewBlocks_deposit ::
  "world \<Rightarrow> nat \<Rightarrow> int \<Rightarrow> string \<Rightarrow> tx \<Rightarrow> string \<Rightarrow> db \<Rightarrow> db" where
  "processNewBlocks_deposit w i blockTimestamp txHash t f d =
     (case getTransactionReceipt w txHash of
        Inl receiptError \<Rightarrow> d
      | Inr receipt \<Rightarrow>
          (case insertBridge w (depositDoc w txHash t f blockTimestamp i) d of
             Inl receiptError \<Rightarrow> d
           | Inr d' \<Rightarrow> d'))"

text \<open>Lines 262 to 318, the body of the loop over the hashes of a block.\<close>

definition processNewBlocks_tx :: "world \<Rightarrow> nat \<Rightarrow> int \<Rightarrow> string \<Rightarrow> db \<Rightarrow> db" where
  "processNewBlocks_tx w i blockTimestamp txHash d =
     (case getTransaction w txHash of
        Inl txError \<Rightarrow> d
      | Inr None \<Rightarrow> d
      | Inr (Some t) \<Rightarrow>
          (case tx_from t of
             None \<Rightarrow> d
           | Some f \<Rightarrow>
               if f = [] then d
               else (case insertActivity w (activityDoc f blockTimestamp i) d of
                       Inl txError \<Rightarrow> d
                     | Inr d1 \<Rightarrow>
                         (let d2 = (if isDeposit t
                                    then processNewBlocks_deposit w i blockTimestamp txHash t f d1
                                    else d1)
                          in if isWithdrawal t
                             then (case insertBridge w (withdrawalDoc txHash t f blockTimestamp i) d2 of
                                     Inl txError \<Rightarrow> d2
                                   | Inr d3 \<Rightarrow> d3)
                             else d2))))"

text \<open>
  Lines 256 to 320. \<open>getBlock\<close> is awaited outside every inner try, so its rejection
  leaves the loop.
\<close>

definition processNewBlocks_block :: "world \<Rightarrow> nat \<Rightarrow> db \<Rightarrow> error + db" where
  "processNewBlocks_block w i d =
     (case getBlock w i of
        Inl e \<Rightarrow> Inl e
      | Inr None \<Rightarrow> Inr d
      | Inr (Some b) \<Rightarrow>
          (case blk_transactions b of
             None \<Rightarrow> Inr d
           | Some hashes \<Rightarrow> Inr (fold (processNewBlocks_tx w i (blockTimestampOf w b)) hashes d)))"

text \<open>
  \<open>for (let i = startBlock; i <= currentBlock; i++)\<close>. The database keeps what was written
  before an error.
\<close>

function processNewBlocks_loop :: "world \<Rightarrow> nat \<Rightarrow> nat \<Rightarrow> db \<Rightarrow> error option \<times> db" where
  "processNewBlocks_loop w i currentBlock d =
     (if i \<le> currentBlock then
        (case processNewBlocks_block w i d of
           Inl e \<Rightarrow> (Some e, d)
         | Inr d' \<Rightarrow> processNewBlocks_loop w (i + 1) currentBlock d')
      else (None, d))"
  by pat_completeness auto
termination
  by (relation "measure (\<lambda>(w, i, currentBlock, d). Suc currentBlock - i)") auto

declare processNewBlocks_loop.simps [simp del]

text \<open>
  \<open>lastActivity ? lastActivity.blockNumber + 1 : Math.max(0, currentBlock - 100)\<close>
\<close>

definition startBlockOf :: "nat \<Rightarrow> activity option \<Rightarrow> nat" where
  "startBlockOf currentBlock lastActivity =
     (case lastActivity of
        Some a \<Rightarrow> a_blockNumber a + 1
      | None \<Rightarrow> nat (max 0 (int currentBlock - 100)))"

text \<open>The number returned and the database afterwards; the outer catch returns 0.\<close>

definition processNewBlocks :: "world \<Rightarrow> db \<Rightarrow> nat \<times> db" where
  "processNewBlocks w d =
     (case getProvider w of
        Inl e \<Rightarrow> (0, d)
      | Inr provider \<Rightarrow>
          (case getBlockNumber w of
             Inl e \<Rightarrow> (0, d)
           | Inr currentBlock \<Rightarrow>
               (case findLastActivity w d of
                  Inl e \<Rightarrow> (0, d)
                | Inr lastActivity \<Rightarrow>
                    (let startBlock = startBlockOf currentBlock lastActivity
                     in if currentBlock < startBlock then (0, d)
                        else (case processNewBlocks_loop w startBlock currentBlock d of
                                (Some e, d') \<Rightarrow> (0, d')
                              | (None, d') \<Rightarrow> (currentBlock - startBlock + 1, d'))))))"

section \<open>Historical scan (server/kpis.js, backfillBridgeActivity)\<close>

record backfillState =
  bf_db :: db
  addressesAdded :: nat
  depositsFound :: nat
  withdrawalsFound :: nat

record backfillResult =
  r_addressesAdded :: nat
  r_depositsFound :: nat
  r_withdrawalsFound :: nat
  r_blocksScanned :: int

definition noBackfill :: backfillResult where
  "noBackfill =
     \<lparr>r_addressesAdded = 0, r_depositsFound = 0, r_withdrawalsFound = 0, r_blocksScanned = 0\<rparr>"

text \<open>Lines 1034 to 1043: a rejected insert is swallowed and the scan of the transaction goes on.\<close>

definition backfill_activity :: "world \<Rightarrow> activity \<Rightarrow> backfillState \<Rightarrow> backfillState" where
  "backfill_activity w doc s =
     (case insertActivity w doc (bf_db s) of
        Inl addressError \<Rightarrow> s
      | Inr d \<Rightarrow> s\<lparr>bf_db := d, addressesAdded := addressesAdded s + 1\<rparr>)"

text \<open>Lines 1047 to 1067.\<close>

definition backfill_deposit ::
  "world \<Rightarrow> nat \<Rightarrow> int \<Rightarrow> string \<Rightarrow> tx \<Rightarrow> string \<Rightarrow> backfillState \<Rightarrow> backfillState" where
  "backfill_deposit w i blockTimestamp txHash t f s =
     (case findBridge w txHash (bf_db s) of
        Inl depositError \<Rightarrow> s
      | Inr (Some existing) \<Rightarrow> s
      | Inr None \<Rightarrow>
          (case insertBridge w (depositDoc w txHash t f blockTimestamp i) (bf_db s) of
             Inl depositError \<Rightarrow> s
           | Inr d \<Rightarrow> s\<lparr>bf_db := d, depositsFound := depositsFound s + 1\<rparr>))"

text \<open>Lines 1072 to 1089.\<close>

definition backfill_withdrawal ::
  "world \<Rightarrow> nat \<Rightarrow> int \<Rightarrow> string \<Rightarrow> tx \<Rightarrow> string \<Rightarrow> backfillState \<Rightarrow> backfillState" where
  "backfill_withdrawal w i blockTimestamp txHash t f s =
     (case findBridge w txHash (bf_db s) of
        Inl withdrawalError \<Rightarrow> s
      | Inr (Some existing) \<Rightarrow> s
      | Inr None \<Rightarrow>
          (case insertBridge w (withdrawalDoc txHash t f blockTimestamp i) (bf_db s) of
             Inl withdrawalError \<Rightarrow> s
           | Inr d \<Rightarrow> s\<lparr>bf_db := d, withdrawalsFound := withdrawalsFound s + 1\<rparr>))"

text \<open>Lines 1028 to 1094, the body of the loop over the hashes of a block.\<close>

definition backfillBridgeActivity_tx ::
  "world \<Rightarrow> nat \<Rightarrow> int \<Rightarrow> string \<Rightarrow> backfillState \<Rightarrow> backfillState" where
  "backfillBridgeActivity_tx w i blockTimestamp txHash s =
     (case getTransaction w txHash of
        Inl txError \<Rightarrow> s
      | Inr None \<Rightarrow> s
      | Inr (Some t) \<Rightarrow>
          (case tx_from t of
             None \<Rightarrow> s
           | Some f \<Rightarrow>
               if f = [] then s
               else (let s1 = backfill_activity w (activityDoc f blockTimestamp i) s;
                         s2 = (if isDeposit t
                               then backfill_deposit w i blockTimestamp txHash t f s1 else s1)
                     in if isWithdrawal t
                        then backfill_withdrawal w i blockTimestamp txHash t f s2 else s2)))"

text \<open>Lines 1021 to 1105: a block that cannot be fetched is skipped.\<close>

definition backfillBridgeActivity_block :: "world \<Rightarrow> nat \<Rightarrow> backfillState \<Rightarrow> backfillState" where
  "backfillBridgeActivity_block w i s =
     (case getBlock w i of
        Inl blockError \<Rightarrow> s
      | Inr None \<Rightarrow> s
      | Inr (Some b) \<Rightarrow>
          (case blk_transactions b of
             None \<Rightarrow> s
           | Some hashes \<Rightarrow>
               if 0 < length hashes
               then fold (backfillBridgeActivity_tx w i (blockTimestampOf w b)) hashes s
               else s))"

function backfillBridgeActivity_loop ::
  "world \<Rightarrow> nat \<Rightarrow> nat \<Rightarrow> backfillState \<Rightarrow> backfillState" where
  "backfillBridgeActivity_loop w i endBlock s =
     (if i \<le> endBlock
      then backfillBridgeActivity_loop w (i + 1) endBlock (backfillBridgeActivity_block w i s)
      else s)"
  by pat_completeness auto
termination
  by (relation "measure (\<lambda>(w, i, endBlock, s). Suc endBlock - i)") auto

declare backfillBridgeActivity_loop.simps [simp del]

text \<open>
  Lines 988 to 1011. With \<open>blockCount === -1\<close> the scan resumes after the last activity
  document or starts at block 1; otherwise it covers the last \<open>blockCount\<close> blocks.
\<close>

definition backfillStart :: "int \<Rightarrow> nat \<Rightarrow> activity option \<Rightarrow> nat" where
  "backfillStart count endBlock lastProcessed =
     (if count = - 1
      then (case lastProcessed of
              Some a \<Rightarrow> if 1 < a_blockNumber a then a_blockNumber a + 1 else 1
            | None \<Rightarrow> 1)
      else nat (max 1 (int endBlock - count + 1)))"

definition backfillBridgeActivity :: "world \<Rightarrow> db \<Rightarrow> backfillResult \<times> db" where
  "backfillBridgeActivity w d =
     (case bridgeActivitySettings w of
        None \<Rightarrow> (noBackfill, d)
      | Some backfillConfig \<Rightarrow>
          if \<not> enabled backfillConfig then (noBackfill, d)
          else if blockCount backfillConfig = 0 then (noBackfill, d)
          else (case getProvider w of
                  Inl e \<Rightarrow> (noBackfill, d)
                | Inr provider \<Rightarrow>
                    (case getBlockNumber w of
                       Inl e \<Rightarrow> (noBackfill, d)
                     | Inr endBlock \<Rightarrow>
                         (case (if blockCount backfillConfig = - 1
                                then findLastActivity w d else Inr None) of
                            Inl e \<Rightarrow> (noBackfill, d)
                          | Inr lastProcessed \<Rightarrow>
                              (let startBlock =
                                     backfillStart (blockCount backfillConfig) endBlock lastProcessed;
                                   totalBlocks = int endBlock - int startBlock + 1;
                                   s = backfillBridgeActivity_loop w startBlock endBlock
                                         \<lparr>bf_db = d, addressesAdded = 0, depositsFound = 0,
                                          withdrawalsFound = 0\<rparr>
                               in (\<lparr>r_addressesAdded = addressesAdded s,
                                    r_depositsFound = depositsFound s,
                                    r_withdrawalsFound = withdrawalsFound s,
                                    r_blocksScanned = totalBlocks\<rparr>, bf_db s))))))"

section \<open>Deposit-amount backfill (server/kpis.js, backfillDepositAmounts)\<close>




section \<open>Explorer statistics (server/explorer.js, fetchBlockscoutStats)\<close>





section \<open>Example worlds\<close>

text \<open>A reachable chain with no blocks of interest, and a database that never fails.\<close>

definition idleWorld :: world where
  "idleWorld =
     \<lparr>getProvider = Inr (), getBlockNumber = Inr 0, getBlock = (\<lambda>i. Inr None),
      getTransaction = (\<lambda>h. Inr None), getTransactionReceipt = (\<lambda>h. Inr ()),
      internalTransactions = (\<lambda>h. Inl (Error ''fetch failed'')),
      newDate = 1700000000000,
      bridgeActivitySettings = Some \<lparr>enabled = True, blockCount = - 1\<rparr>,
      findLastActivityFails = False, insertActivityFails = (\<lambda>doc. False),
      findBridgeFails = (\<lambda>h. False), insertBridgeFails = (\<lambda>doc. False),
      findZeroDepositsFails = False, updateBridgeFails = (\<lambda>ident. False)\<rparr>"

definition emptyDb :: db where
  "emptyDb = \<lparr>addressActivity = [], bridgeActivity = []\<rparr>"

text \<open>
  Block 1 holds one transaction of type 105, sent to the ArbSys address with a value of
  one ETH: both bridge rules match it.
\<close>

definition dualTx :: tx where
  "dualTx = \<lparr>tx_from = Some ''0xAAA'', tx_to = Some ARBSYS_ADDRESS,
             tx_value = 1000000000000000000, tx_type = Some 105\<rparr>"

definition dualWorld :: world where
  "dualWorld = idleWorld
     \<lparr>getBlockNumber := Inr 1,
      getBlock := (\<lambda>i. if i = 1
         then Inr (Some \<lparr>blk_timestamp = 1700000000, blk_transactions = Some [''0xt1'']\<rparr>)
         else Inr None),
      getTransaction := (\<lambda>h. if h = ''0xt1'' then Inr (Some dualTx) else Inr None)\<rparr>"

text \<open>
  The scenario of the specification: block 100 holds one deposit from \<open>0xAAA\<close> to a bridge
  contract, and the explorer reports an internal transfer of one ETH from the zero address.
\<close>

definition depositWorld :: world where
  "depositWorld = idleWorld
     \<lparr>getBlockNumber := Inr 100,
      getBlock := (\<lambda>i. if i = 100
         then Inr (Some \<lparr>blk_timestamp = 1700000000, blk_transactions = Some [''0xtx100'']\<rparr>)
         else Inr None),
      getTransaction := (\<lambda>h. if h = ''0xtx100''
         then Inr (Some \<lparr>tx_from = Some ''0xAAA'', tx_to = Some ''0xB1D6E'', tx_value = 0,
                          tx_type = Some 105\<rparr>)
         else Inr None),
      internalTransactions := (\<lambda>h. Inr \<lparr>ok = True, status = 200,
         json = Inr (Some [\<lparr>itx_from = Some ZERO_ADDRESS,
                            itx_value = Wei 1000000000000000000\<rparr>])\<rparr>)\<rparr>"

text \<open>
  The chain is at block 5 and the last activity document is of block 3. Block 4 has no
  transactions; block 5 has one, whose fetch fails.
\<close>

definition quietWorld :: world where
  "quietWorld = idleWorld
     \<lparr>getBlockNumber := Inr 5,
      getBlock := (\<lambda>i. if i = 4
         then Inr (Some \<lparr>blk_timestamp = 1700000004, blk_transactions = Some []\<rparr>)
         else if i = 5
         then Inr (Some \<lparr>blk_timestamp = 1700000005, blk_transactions = Some [''0xt5'']\<rparr>)
         else Inr None),
      getTransaction := (\<lambda>h. Inl (Error ''timeout''))\<rparr>"

definition quietDb :: db where
  "quietDb = \<lparr>addressActivity =
                 [\<lparr>a_address = ''0xaaa'', a_timestamp = 1700000003000, a_blockNumber = 3\<rparr>],
              bridgeActivity = []\<rparr>"

text \<open>The deposit scenario with a database that rejects every activity insert.\<close>

definition rejectingWorld :: world where
  "rejectingWorld = depositWorld\<lparr>insertActivityFails := (\<lambda>doc. True)\<rparr>"

text \<open>A database whose last activity document is of block 99.\<close>

definition priorDb :: db where
  "priorDb = \<lparr>addressActivity =
                 [\<lparr>a_address = ''0xccc'', a_timestamp = 1699999990000, a_blockNumber = 99\<rparr>],
              bridgeActivity = []\<rparr>"

text \<open>A chain client whose transactions carry no sender.\<close>

definition senderlessTx :: tx where
  "senderlessTx = \<lparr>tx_from = None, tx_to = Some ARBSYS_ADDRESS, tx_value = 5, tx_type = Some 105\<rparr>"

definition senderlessWorld :: world where
  "senderlessWorld = idleWorld\<lparr>getTransaction := (\<lambda>h. Inr (Some senderlessTx))\<rparr>"

text \<open>A database that rejects the query for deposits without an amount.\<close>

definition brokenFindWorld :: world where
  "brokenFindWorld = idleWorld\<lparr>findZeroDepositsFails := True\<rparr>"



text \<open>
  Two deposits persisted without an amount; the explorer knows the amount of both, and the
  database rejects the update of the second.
\<close>

definition pendingDb :: db where
  "pendingDb =
     \<lparr>addressActivity = [],
      bridgeActivity =
        [\<lparr>b_txHash = ''0xtx100'', b_type = ''deposit'', b_from = ''0xaaa'', b_to = None,
          b_value = 0, b_timestamp = 1700000000000, b_blockNumber = 100,
          b_l2TxHash = ''0xtx100''\<rparr>,
         \<lparr>b_txHash = ''0xtx101'', b_type = ''deposit'', b_from = ''0xbbb'', b_to = None,
          b_value = 0, b_timestamp = 1700000001000, b_blockNumber = 101,
          b_l2TxHash = ''0xtx101''\<rparr>]\<rparr>"

definition partialUpdateWorld :: world where
  "partialUpdateWorld = depositWorld\<lparr>updateBridgeFails := (\<lambda>ident. ident = 1)\<rparr>"

text \<open>The chain of \<open>quietWorld\<close> with a block 5 that cannot be fetched.\<close>

definition brokenBlockWorld :: world where
  "brokenBlockWorld = quietWorld
     \<lparr>getBlock := (\<lambda>i. if i = 4
         then Inr (Some \<lparr>blk_timestamp = 1700000004, blk_transactions = Some []\<rparr>)
         else Inl (Error ''timeout''))\<rparr>"

section \<open>Vocabulary for the ingestion theorems\<close>

text \<open>The documents a run appended: those after the ones that were there before.\<close>

definition newActivity :: "db \<Rightarrow> db \<Rightarrow> activity list" where
  "newActivity d d' = drop (length (addressActivity d)) (addressActivity d')"

definition newBridge :: "db \<Rightarrow> db \<Rightarrow> bridge list" where
  "newBridge d d' = drop (length (bridgeActivity d)) (bridgeActivity d')"

text \<open>
  The documents a scan appends are described by where they come from: an activity document
  is \<open>activityDoc\<close> of the sender of some fetched transaction; a bridge document is the
  deposit or withdrawal document of some fetched transaction that the matching rule
  accepts. With \<open>strict\<close>, or when the insert of the activity document is not rejected,
  that activity document is among the appended ones. \<open>grows\<close> relates a database to a
  later one that differs by such appended documents only.
\<close>

definition activitySource :: "world \<Rightarrow> activity \<Rightarrow> bool" where
  "activitySource w a =
     (\<exists>h t f ts i. getTransaction w h = Inr (Some t) \<and> tx_from t = Some f \<and> f \<noteq> [] \<and>
        a = activityDoc f ts i)"

definition bridgeSource :: "world \<Rightarrow> bool \<Rightarrow> activity list \<Rightarrow> bridge \<Rightarrow> bool" where
  "bridgeSource w strict as b =
     (\<exists>h t f ts i. getTransaction w h = Inr (Some t) \<and> tx_from t = Some f \<and> f \<noteq> [] \<and>
        ((isDeposit t \<and> b = depositDoc w h t f ts i) \<or>
         (isWithdrawal t \<and> b = withdrawalDoc h t f ts i)) \<and>
        (strict \<or> \<not> insertActivityFails w (activityDoc f ts i) \<longrightarrow>
           activityDoc f ts i \<in> set as))"

definition emitted :: "world \<Rightarrow> bool \<Rightarrow> activity list \<Rightarrow> bridge list \<Rightarrow> bool" where
  "emitted w strict as bs =
     ((\<forall>a\<in>set as. activitySource w a) \<and> (\<forall>b\<in>set bs. bridgeSource w strict as b))"

definition grows :: "world \<Rightarrow> bool \<Rightarrow> db \<Rightarrow> db \<Rightarrow> bool" where
  "grows w strict d d' =
     (\<exists>as bs. addressActivity d' = addressActivity d @ as \<and>
              bridgeActivity d' = bridgeActivity d @ bs \<and> emitted w strict as bs)"

text \<open>
  \<open>dedup d d'\<close>: the bridge documents appended between \<open>d\<close> and \<open>d'\<close> have pairwise
  different transaction hashes, none of which \<open>d\<close> has.
\<close>

definition dedup :: "db \<Rightarrow> db \<Rightarrow> bool" where
  "dedup d d' =
     (\<exists>bs. bridgeActivity d' = bridgeActivity d @ bs \<and> distinct (map b_txHash bs) \<and>
           (\<forall>b\<in>set bs. b_txHash b \<notin> b_txHash ` set (bridgeActivity d)))"

section \<open>Theorems\<close>

subsection \<open>Price oracle cache\<close>


text \<open>
  C5. \<open>getEthPrice\<close> always returns a price and follows the fallback chain: a cached price
  younger than the five-minute TTL is returned without an upstream call; otherwise the
  upstream is called; when that refresh fails a cached price, even an expired one, is
  returned; when it fails and nothing is cached, 3000 is returned.
\<close>

theorem getEthPrice_fallback_chain:
  "(truthy (price cache) \<and> now - timestamp cache < PRICE_CACHE_TTL \<longrightarrow>
      returned (getEthPrice now cache upstream) = the (price cache) \<and>
      \<not> upstreamCalled (getEthPrice now cache upstream)) \<and>
   (\<not> (truthy (price cache) \<and> now - timestamp cache < PRICE_CACHE_TTL) \<longrightarrow>
      upstreamCalled (getEthPrice now cache upstream) \<and>
      (\<forall>p. refresh upstream = Inr p \<longrightarrow> returned (getEthPrice now cache upstream) = p) \<and>
      (\<forall>e. refresh upstream = Inl e \<and> truthy (price cache) \<longrightarrow>
           returned (getEthPrice now cache upstream) = the (price cache)) \<and>
      (\<forall>e. refresh upstream = Inl e \<and> \<not> truthy (price cache) \<longrightarrow>
           returned (getEthPrice now cache upstream) = 3000))"
  by (auto simp: getEthPrice_def split: sum.splits)

text \<open>
  The scenarios of the specification: a cached 3200 two minutes past the TTL with a failing
  upstream is returned stale; with no cache the default is returned; a fresh entry needs no
  upstream call.
\<close>

theorem getEthPrice_fallback_chain_witness:
  "returned (getEthPrice 1000000 \<lparr>price = Some 3200, timestamp = 1000000 - 7 * 60 * 1000\<rparr>
               (Inl (Error ''fetch failed''))) = 3200 \<and>
   returned (getEthPrice 1000000 initialCache (Inl (Error ''fetch failed''))) = 3000 \<and>
   \<not> upstreamCalled (getEthPrice 1000000 \<lparr>price = Some 3200, timestamp = 900000\<rparr>
               (Inl (Error ''fetch failed'')))"
  using
    getEthPrice_fallback_chain [of "\<lparr>price = Some 3200, timestamp = 1000000 - 7 * 60 * 1000\<rparr>"
      1000000 "Inl (Error ''fetch failed'')"]
    getEthPrice_fallback_chain [of initialCache 1000000 "Inl (Error ''fetch failed'')"]
    getEthPrice_fallback_chain [of "\<lparr>price = Some 3200, timestamp = 900000\<rparr>" 1000000
      "Inl (Error ''fetch failed'')"]
  by (simp add: refresh_def initialCache_def PRICE_CACHE_TTL_def)

text \<open>
  C10. The cache is written only after a successful upstream fetch. When the refresh fails
  the slot is left as it was; in particular, when the default 3000 is returned the slot is
  still empty, and every later call on that slot calls the upstream again.
\<close>

theorem getEthPrice_cache_written_only_on_success:
  "(cacheAfter (getEthPrice now cache upstream) \<noteq> cache \<longrightarrow>
      (\<exists>p. refresh upstream = Inr p \<and>
           cacheAfter (getEthPrice now cache upstream) = \<lparr>price = Some p, timestamp = now\<rparr>)) \<and>
   (\<not> truthy (price cache) \<and> (\<exists>e. refresh upstream = Inl e) \<longrightarrow>
      returned (getEthPrice now cache upstream) = 3000 \<and>
      cacheAfter (getEthPrice now cache upstream) = cache \<and>
      (\<forall>now' upstream'.
         upstreamCalled (getEthPrice now' (cacheAfter (getEthPrice now cache upstream)) upstream')))"
  by (auto simp: getEthPrice_def split: sum.splits)

theorem getEthPrice_cache_written_only_on_success_witness:
  "cacheAfter (getEthPrice 1000000 initialCache (Inl (Error ''fetch failed''))) = initialCache \<and>
   returned (getEthPrice 1000000 initialCache (Inl (Error ''fetch failed''))) = 3000 \<and>
   upstreamCalled (getEthPrice 1000001 initialCache
     (Inr \<lparr>ok = True, status = 200, json = Inr (Some 3100)\<rparr>)) \<and>
   cacheAfter (getEthPrice 1000001 initialCache
     (Inr \<lparr>ok = True, status = 200, json = Inr (Some 3100)\<rparr>)) =
     \<lparr>price = Some 3100, timestamp = 1000001\<rparr>"
  using
    getEthPrice_cache_written_only_on_success
      [of 1000000 initialCache "Inl (Error ''fetch failed'')"]
    getEthPrice_cache_written_only_on_success
      [of 1000001 initialCache "Inr \<lparr>ok = True, status = 200, json = Inr (Some 3100)\<rparr>"]
  by (simp add: refresh_def initialCache_def getEthPrice_def PRICE_CACHE_TTL_def)

subsection \<open>Ingestion: what a scan appends\<close>

lemma emitted_Nil: "emitted w strict [] []"
  by (simp add: emitted_def)

lemma bridgeSource_mono:
  assumes "bridgeSource w strict as b" and "set as \<subseteq> set as'"
  shows "bridgeSource w strict as' b"
proof -
  from assms(1) obtain h t f ts i where
    s: "getTransaction w h = Inr (Some t)" "tx_from t = Some f" "f \<noteq> []"
       "(isDeposit t \<and> b = depositDoc w h t f ts i) \<or>
        (isWithdrawal t \<and> b = withdrawalDoc h t f ts i)"
       "strict \<or> \<not> insertActivityFails w (activityDoc f ts i) \<longrightarrow>
          activityDoc f ts i \<in> set as"
    unfolding bridgeSource_def by blast
  from s(5) assms(2) have
    "strict \<or> \<not> insertActivityFails w (activityDoc f ts i) \<longrightarrow> activityDoc f ts i \<in> set as'"
    by blast
  with s(1-4) show ?thesis
    unfolding bridgeSource_def by blast
qed

lemma emitted_append:
  assumes "emitted w strict as bs" and "emitted w strict as' bs'"
  shows "emitted w strict (as @ as') (bs @ bs')"
proof -
  have "\<forall>a\<in>set (as @ as'). activitySource w a"
    using assms by (auto simp: emitted_def)
  moreover have "\<forall>b\<in>set (bs @ bs'). bridgeSource w strict (as @ as') b"
  proof
    fix b assume "b \<in> set (bs @ bs')"
    then consider "b \<in> set bs" | "b \<in> set bs'" by auto
    then show "bridgeSource w strict (as @ as') b"
    proof cases
      case 1
      then have "bridgeSource w strict as b" using assms(1) by (simp add: emitted_def)
      then show ?thesis by (rule bridgeSource_mono) simp
    next
      case 2
      then have "bridgeSource w strict as' b" using assms(2) by (simp add: emitted_def)
      then show ?thesis by (rule bridgeSource_mono) simp
    qed
  qed
  ultimately show ?thesis by (simp add: emitted_def)
qed

lemma grows_refl: "grows w strict d d"
  unfolding grows_def using emitted_Nil by force

lemma grows_trans:
  assumes "grows w strict d d'" and "grows w strict d' d''"
  shows "grows w strict d d''"
proof -
  from assms(1) obtain as bs where 1: "addressActivity d' = addressActivity d @ as"
    "bridgeActivity d' = bridgeActivity d @ bs" "emitted w strict as bs"
    unfolding grows_def by blast
  from assms(2) obtain as' bs' where 2: "addressActivity d'' = addressActivity d' @ as'"
    "bridgeActivity d'' = bridgeActivity d' @ bs'" "emitted w strict as' bs'"
    unfolding grows_def by blast
  have "addressActivity d'' = addressActivity d @ (as @ as')"
    "bridgeActivity d'' = bridgeActivity d @ (bs @ bs')"
    using 1 2 by simp_all
  moreover have "emitted w strict (as @ as') (bs @ bs')"
    using 1(3) 2(3) by (rule emitted_append)
  ultimately show ?thesis unfolding grows_def by blast
qed

lemma processNewBlocks_tx_grows: "grows w True d (processNewBlocks_tx w i ts h d)"
proof (cases "getTransaction w h")
  case (Inl e)
  then show ?thesis by (simp add: processNewBlocks_tx_def grows_refl)
next
  case (Inr topt)
  show ?thesis
  proof (cases topt)
    case None
    with Inr show ?thesis by (simp add: processNewBlocks_tx_def grows_refl)
  next
    case (Some t)
    show ?thesis
    proof (cases "tx_from t")
      case None
      with Inr Some show ?thesis by (simp add: processNewBlocks_tx_def grows_refl)
    next
      case f: (Some f)
      show ?thesis
      proof (cases "f = [] \<or> insertActivityFails w (activityDoc f ts i)")
        case True
        with Inr Some f show ?thesis
          by (auto simp: processNewBlocks_tx_def grows_refl insertActivity_def)
      next
        case False
        let ?a = "activityDoc f ts i"
        let ?dep = "depositDoc w h t f ts i"
        let ?wd = "withdrawalDoc h t f ts i"
        have src: "getTransaction w h = Inr (Some t)" "tx_from t = Some f" "f \<noteq> []"
          using Inr Some f False by simp_all
        have "\<exists>bs. addressActivity (processNewBlocks_tx w i ts h d) = addressActivity d @ [?a] \<and>
               bridgeActivity (processNewBlocks_tx w i ts h d) = bridgeActivity d @ bs \<and>
               set bs \<subseteq> (if isDeposit t then {?dep} else {}) \<union> (if isWithdrawal t then {?wd} else {})"
          using src False
          by (auto simp: processNewBlocks_tx_def processNewBlocks_deposit_def insertActivity_def
                insertBridge_def Let_def split: sum.splits)
        then obtain bs where bs: "addressActivity (processNewBlocks_tx w i ts h d) = addressActivity d @ [?a]"
          "bridgeActivity (processNewBlocks_tx w i ts h d) = bridgeActivity d @ bs"
          "set bs \<subseteq> (if isDeposit t then {?dep} else {}) \<union> (if isWithdrawal t then {?wd} else {})"
          by blast
        have "activitySource w ?a"
          unfolding activitySource_def using src by blast
        moreover have "bridgeSource w True [?a] b" if "b \<in> set bs" for b
        proof -
          from that have "(isDeposit t \<and> b = ?dep) \<or> (isWithdrawal t \<and> b = ?wd)"
            using bs(3) by (auto split: if_splits)
          then show ?thesis
            unfolding bridgeSource_def using src
            by (intro exI [of _ h] exI [of _ t] exI [of _ f] exI [of _ ts] exI [of _ i]) simp
        qed
        ultimately have "emitted w True [?a] bs"
          by (simp add: emitted_def)
        with bs(1,2) show ?thesis unfolding grows_def by blast
      qed
    qed
  qed
qed


lemma backfill_activity_db:
  "addressActivity (bf_db (backfill_activity w doc s)) =
     addressActivity (bf_db s) @ (if insertActivityFails w doc then [] else [doc]) \<and>
   bridgeActivity (bf_db (backfill_activity w doc s)) = bridgeActivity (bf_db s)"
  by (simp add: backfill_activity_def insertActivity_def)

lemma backfill_deposit_db:
  "addressActivity (bf_db (backfill_deposit w i ts h t f s)) = addressActivity (bf_db s) \<and>
   (\<exists>bs. bridgeActivity (bf_db (backfill_deposit w i ts h t f s)) = bridgeActivity (bf_db s) @ bs \<and>
         set bs \<subseteq> {depositDoc w h t f ts i})"
  by (auto simp: backfill_deposit_def insertBridge_def findBridge_def split: option.splits)

lemma backfill_withdrawal_db:
  "addressActivity (bf_db (backfill_withdrawal w i ts h t f s)) = addressActivity (bf_db s) \<and>
   (\<exists>bs. bridgeActivity (bf_db (backfill_withdrawal w i ts h t f s)) = bridgeActivity (bf_db s) @ bs \<and>
         set bs \<subseteq> {withdrawalDoc h t f ts i})"
  by (auto simp: backfill_withdrawal_def insertBridge_def findBridge_def split: option.splits)

lemma backfillBridgeActivity_tx_grows:
  "grows w False (bf_db s) (bf_db (backfillBridgeActivity_tx w i ts h s))"
proof (cases "\<exists>t f. getTransaction w h = Inr (Some t) \<and> tx_from t = Some f \<and> f \<noteq> []")
  case False
  then have "backfillBridgeActivity_tx w i ts h s = s"
    by (auto simp: backfillBridgeActivity_tx_def split: sum.splits option.splits)
  then show ?thesis by (simp add: grows_refl)
next
  case True
  then obtain t f where src: "getTransaction w h = Inr (Some t)" "tx_from t = Some f" "f \<noteq> []"
    by blast
  let ?a = "activityDoc f ts i"
  let ?dep = "depositDoc w h t f ts i"
  let ?wd = "withdrawalDoc h t f ts i"
  define s1 where "s1 = backfill_activity w ?a s"
  define s2 where "s2 = (if isDeposit t then backfill_deposit w i ts h t f s1 else s1)"
  define s3 where "s3 = (if isWithdrawal t then backfill_withdrawal w i ts h t f s2 else s2)"
  have res: "backfillBridgeActivity_tx w i ts h s = s3"
    using src by (simp add: backfillBridgeActivity_tx_def s1_def s2_def s3_def Let_def)
  define as where "as = (if insertActivityFails w ?a then [] else [?a])"
  have a1: "addressActivity (bf_db s1) = addressActivity (bf_db s) @ as"
    "bridgeActivity (bf_db s1) = bridgeActivity (bf_db s)"
    by (simp_all add: s1_def as_def backfill_activity_db)
  obtain bs2 where a2: "addressActivity (bf_db s2) = addressActivity (bf_db s1)"
    "bridgeActivity (bf_db s2) = bridgeActivity (bf_db s1) @ bs2"
    "set bs2 \<subseteq> (if isDeposit t then {?dep} else {})"
  proof (cases "isDeposit t")
    case True
    with backfill_deposit_db [of w i ts h t f s1] that show ?thesis
      by (auto simp: s2_def)
  next
    case False
    with that [of "[]"] show ?thesis by (simp add: s2_def)
  qed
  obtain bs3 where a3: "addressActivity (bf_db s3) = addressActivity (bf_db s2)"
    "bridgeActivity (bf_db s3) = bridgeActivity (bf_db s2) @ bs3"
    "set bs3 \<subseteq> (if isWithdrawal t then {?wd} else {})"
  proof (cases "isWithdrawal t")
    case True
    with backfill_withdrawal_db [of w i ts h t f s2] that show ?thesis
      by (auto simp: s3_def)
  next
    case False
    with that [of "[]"] show ?thesis by (simp add: s3_def)
  qed
  have "activitySource w ?a"
    unfolding activitySource_def using src by blast
  then have "\<forall>a\<in>set as. activitySource w a"
    by (simp add: as_def)
  moreover have "bridgeSource w False as b" if "b \<in> set (bs2 @ bs3)" for b
  proof -
    from that have "(isDeposit t \<and> b = ?dep) \<or> (isWithdrawal t \<and> b = ?wd)"
      using a2(3) a3(3) by (auto split: if_splits)
    then show ?thesis
      unfolding bridgeSource_def using src
      by (intro exI [of _ h] exI [of _ t] exI [of _ f] exI [of _ ts] exI [of _ i])
         (simp add: as_def)
  qed
  ultimately have "emitted w False as (bs2 @ bs3)"
    by (simp add: emitted_def)
  moreover have "addressActivity (bf_db s3) = addressActivity (bf_db s) @ as"
    "bridgeActivity (bf_db s3) = bridgeActivity (bf_db s) @ (bs2 @ bs3)"
    using a1 a2 a3 by simp_all
  ultimately show ?thesis
    unfolding grows_def res by blast
qed

subsection \<open>Lifting a property of one transaction to a whole scan\<close>

lemma fold_preserves: "(\<And>x s. I s \<Longrightarrow> I (f x s)) \<Longrightarrow> I s \<Longrightarrow> I (fold f xs s)"
  by (induction xs arbitrary: s) auto

lemma processNewBlocks_block_preserves:
  assumes "\<And>ts h d. I d \<Longrightarrow> I (processNewBlocks_tx w i ts h d)"
    and "I d" and "processNewBlocks_block w i d = Inr d'"
  shows "I d'"
proof -
  have "I (fold (processNewBlocks_tx w i ts) hs d)" for ts hs
    by (rule fold_preserves [where I = I]) (simp_all add: assms(1,2))
  with assms(2,3) show ?thesis
    by (auto simp: processNewBlocks_block_def split: sum.splits option.splits)
qed

lemma processNewBlocks_loop_preserves:
  "(\<And>i ts h d. I d \<Longrightarrow> I (processNewBlocks_tx w i ts h d)) \<Longrightarrow> I d \<Longrightarrow>
   I (snd (processNewBlocks_loop w i c d))"
proof (induction w i c d rule: processNewBlocks_loop.induct)
  case (1 w i c d)
  note step = "1.prems"(1) and start = "1.prems"(2)
  show ?case
  proof (cases "i \<le> c")
    case False
    with start show ?thesis by (simp add: processNewBlocks_loop.simps [of w i c d])
  next
    case True
    show ?thesis
    proof (cases "processNewBlocks_block w i d")
      case (Inl e)
      with True start show ?thesis by (simp add: processNewBlocks_loop.simps [of w i c d])
    next
      case (Inr d')
      have "I d'"
        by (rule processNewBlocks_block_preserves [where I = I and w = w and i = i and d = d])
           (simp_all add: step start Inr)
      then have "I (snd (processNewBlocks_loop w (i + 1) c d'))"
        using True Inr step by (intro "1.IH") simp_all
      with True Inr show ?thesis by (simp add: processNewBlocks_loop.simps [of w i c d])
    qed
  qed
qed

lemma processNewBlocks_preserves:
  assumes "\<And>i ts h d. I d \<Longrightarrow> I (processNewBlocks_tx w i ts h d)" and "I d"
  shows "I (snd (processNewBlocks w d))"
proof -
  have "I d'" if "processNewBlocks_loop w i c d = (r, d')" for i c r d'
    using processNewBlocks_loop_preserves [where I = I and w = w and d = d and i = i and c = c]
      assms that by simp
  with assms(2) show ?thesis
    by (auto simp: processNewBlocks_def Let_def split: sum.splits prod.splits option.splits)
qed

lemma backfillBridgeActivity_block_preserves:
  assumes "\<And>ts h s. I s \<Longrightarrow> I (backfillBridgeActivity_tx w i ts h s)" and "I s"
  shows "I (backfillBridgeActivity_block w i s)"
proof -
  have "I (fold (backfillBridgeActivity_tx w i ts) hs s)" for ts hs
    by (rule fold_preserves [where I = I]) (simp_all add: assms)
  with assms(2) show ?thesis
    by (auto simp: backfillBridgeActivity_block_def split: sum.splits option.splits)
qed

lemma backfillBridgeActivity_loop_preserves:
  "(\<And>i ts h s. I s \<Longrightarrow> I (backfillBridgeActivity_tx w i ts h s)) \<Longrightarrow> I s \<Longrightarrow>
   I (backfillBridgeActivity_loop w i e s)"
proof (induction w i e s rule: backfillBridgeActivity_loop.induct)
  case (1 w i e s)
  note step = "1.prems"(1) and start = "1.prems"(2)
  show ?case
  proof (cases "i \<le> e")
    case False
    with start show ?thesis by (simp add: backfillBridgeActivity_loop.simps [of w i e s])
  next
    case True
    have "I (backfillBridgeActivity_block w i s)"
      by (rule backfillBridgeActivity_block_preserves [where I = I])
         (simp_all add: step start)
    then have "I (backfillBridgeActivity_loop w (i + 1) e (backfillBridgeActivity_block w i s))"
      using True step by (intro "1.IH") simp_all
    with True show ?thesis by (simp add: backfillBridgeActivity_loop.simps [of w i e s])
  qed
qed

lemma backfillBridgeActivity_preserves:
  assumes "\<And>i ts h s. P (bf_db s) \<Longrightarrow> P (bf_db (backfillBridgeActivity_tx w i ts h s))"
    and "P d"
  shows "P (snd (backfillBridgeActivity w d))"
proof -
  have "P (bf_db (backfillBridgeActivity_loop w i e
          \<lparr>bf_db = d, addressesAdded = 0, depositsFound = 0, withdrawalsFound = 0\<rparr>))" for i e
    by (rule backfillBridgeActivity_loop_preserves [where I = "\<lambda>s. P (bf_db s)"])
       (simp_all add: assms)
  with assms(2) show ?thesis
    by (auto simp: backfillBridgeActivity_def Let_def split: sum.splits option.splits)
qed

lemma processNewBlocks_grows: "grows w True d (snd (processNewBlocks w d))"
proof (rule processNewBlocks_preserves)
  show "grows w True d d" by (rule grows_refl)
next
  fix i ts h d' assume "grows w True d d'"
  then show "grows w True d (processNewBlocks_tx w i ts h d')"
    using processNewBlocks_tx_grows by (rule grows_trans)
qed

lemma backfillBridgeActivity_grows: "grows w False d (snd (backfillBridgeActivity w d))"
proof (rule backfillBridgeActivity_preserves)
  show "grows w False d d" by (rule grows_refl)
next
  fix i ts h and s :: backfillState assume "grows w False d (bf_db s)"
  then show "grows w False d (bf_db (backfillBridgeActivity_tx w i ts h s))"
    using backfillBridgeActivity_tx_grows by (rule grows_trans)
qed

subsection \<open>Weekly active addresses\<close>

lemma uniqueAddresses_countStage: "uniqueAddresses (countStage xs) = length xs"
  by (cases xs) (simp_all add: uniqueAddresses_def countStage_def)

lemma calculateWeeklyActiveAddresses_card:
  "calculateWeeklyActiveAddresses now (Inr docs) =
     card (a_address ` {e \<in> set docs. now - 7 * 24 * 60 * 60 * 1000 \<le> a_timestamp e \<and>
                                     a_address e \<notin> set SYSTEM_ADDRESSES})"
proof -
  let ?m = "filter (weeklyMatch (now - 7 * 24 * 60 * 60 * 1000)) docs"
  have "calculateWeeklyActiveAddresses now (Inr docs) = length (remdups (map a_address ?m))"
    by (simp add: calculateWeeklyActiveAddresses_def uniqueAddresses_countStage groupStage_def)
  also have "\<dots> = card (set (map a_address ?m))"
    by (rule length_remdups_card_conv)
  also have "set (map a_address ?m) =
       a_address ` {e \<in> set docs. now - 7 * 24 * 60 * 60 * 1000 \<le> a_timestamp e \<and>
                                     a_address e \<notin> set SYSTEM_ADDRESSES}"
    by (auto simp: weeklyMatch_def)
  finally show ?thesis .
qed

text \<open>
  C6. The weekly-active-address count is the number of distinct addresses among the
  activity documents no older than seven days whose address is not a system address. It
  depends only on the set of documents, so duplicating a row does not change it.
\<close>

theorem weekly_active_is_distinct_count:
  "calculateWeeklyActiveAddresses now (Inr docs) =
     card (a_address ` {e \<in> set docs. now - 7 * 24 * 60 * 60 * 1000 \<le> a_timestamp e \<and>
                                     a_address e \<notin> set SYSTEM_ADDRESSES}) \<and>
   (\<forall>e\<in>set docs. calculateWeeklyActiveAddresses now (Inr (e # docs)) =
                   calculateWeeklyActiveAddresses now (Inr docs)) \<and>
   (\<forall>docs'. set docs' = set docs \<longrightarrow>
      calculateWeeklyActiveAddresses now (Inr docs') =
      calculateWeeklyActiveAddresses now (Inr docs))"
proof (intro conjI ballI allI impI)
  show "calculateWeeklyActiveAddresses now (Inr docs) =
     card (a_address ` {e \<in> set docs. now - 7 * 24 * 60 * 60 * 1000 \<le> a_timestamp e \<and>
                                     a_address e \<notin> set SYSTEM_ADDRESSES})"
    by (rule calculateWeeklyActiveAddresses_card)
next
  fix e assume "e \<in> set docs"
  then have "set (e # docs) = set docs" by auto
  then show "calculateWeeklyActiveAddresses now (Inr (e # docs)) =
             calculateWeeklyActiveAddresses now (Inr docs)"
    by (simp only: calculateWeeklyActiveAddresses_card)
next
  fix docs' assume "set docs' = set docs"
  then show "calculateWeeklyActiveAddresses now (Inr docs') =
             calculateWeeklyActiveAddresses now (Inr docs)"
    by (simp only: calculateWeeklyActiveAddresses_card)
qed

text \<open>
  Addresses active eight, six and one day ago: the latter two are counted, and a
  duplicated row of the last one changes nothing.
\<close>

theorem weekly_active_is_distinct_count_witness:
  "calculateWeeklyActiveAddresses 1700000000000 (Inr rollingWindowDocs) = 2 \<and>
   last rollingWindowDocs \<in> set rollingWindowDocs \<and>
   calculateWeeklyActiveAddresses 1700000000000 (Inr (last rollingWindowDocs # rollingWindowDocs)) = 2"
  using weekly_active_is_distinct_count [of 1700000000000 rollingWindowDocs]
  by (simp add: rollingWindowDocs_def SYSTEM_ADDRESSES_def calculateWeeklyActiveAddresses_def
        weeklyMatch_def groupStage_def countStage_def uniqueAddresses_def)

subsection \<open>History backfill\<close>

lemma dailyLoop_all_ok:
  "(\<And>j. i \<le> j \<Longrightarrow> j < days \<Longrightarrow>
      \<not> queryFails env (dayStart env j) \<and> \<not> insertFails env (dailySnapshot env j)) \<Longrightarrow>
   dailyLoop env days i n coll =
     (Inr (n + nat (days - i)), coll @ map (dailySnapshot env) [i..days - 1])"
proof (induction env days i n coll rule: dailyLoop.induct)
  case (1 env days i n coll)
  show ?case
  proof (cases "i < days")
    case False
    then show ?thesis by (simp add: dailyLoop.simps [of env days i])
  next
    case True
    have ok: "\<not> queryFails env (dayStart env i)" "\<not> insertFails env (dailySnapshot env i)"
      using "1.prems" [of i] True by simp_all
    have rest: "dailyLoop env days (i + 1) (n + 1) (coll @ [dailySnapshot env i]) =
       (Inr (n + 1 + nat (days - (i + 1))),
        (coll @ [dailySnapshot env i]) @ map (dailySnapshot env) [i + 1..days - 1])"
      using True ok "1.prems" by (intro "1.IH") simp_all
    have up: "[i..days - 1] = i # [i + 1..days - 1]"
      using True by (simp add: upto_rec1)
    have cnt: "n + 1 + nat (days - (i + 1)) = n + nat (days - i)"
      using True by simp
    show ?thesis
      using True ok rest by (simp add: dailyLoop.simps [of env days i] up cnt)
  qed
qed

lemma weeklyLoop_all_ok:
  "(\<And>j. i \<le> j \<Longrightarrow> j < days \<Longrightarrow>
      \<not> queryFails env (dayStart env j) \<and> \<not> insertFails env (weeklySnapshot env j)) \<Longrightarrow>
   weeklyLoop env days i n coll =
     (Inr (n + nat (days - i)), coll @ map (weeklySnapshot env) [i..days - 1])"
proof (induction env days i n coll rule: weeklyLoop.induct)
  case (1 env days i n coll)
  show ?case
  proof (cases "i < days")
    case False
    then show ?thesis by (simp add: weeklyLoop.simps [of env days i])
  next
    case True
    have ok: "\<not> queryFails env (dayStart env i)" "\<not> insertFails env (weeklySnapshot env i)"
      using "1.prems" [of i] True by simp_all
    have rest: "weeklyLoop env days (i + 1) (n + 1) (coll @ [weeklySnapshot env i]) =
       (Inr (n + 1 + nat (days - (i + 1))),
        (coll @ [weeklySnapshot env i]) @ map (weeklySnapshot env) [i + 1..days - 1])"
      using True ok "1.prems" by (intro "1.IH") simp_all
    have up: "[i..days - 1] = i # [i + 1..days - 1]"
      using True by (simp add: upto_rec1)
    have cnt: "n + 1 + nat (days - (i + 1)) = n + nat (days - i)"
      using True by simp
    show ?thesis
      using True ok rest by (simp add: weeklyLoop.simps [of env days i] up cnt)
  qed
qed

lemma utc_dayStart:
  assumes "cal env = utc"
  shows "dayStart env k = 86400000 * (clock env div 86400000 - k)"
proof -
  have "(clock env + (- k) * 86400000) mod 86400000 = clock env mod 86400000"
    by (rule mod_mult_self1)
  then have m: "(clock env - k * 86400000) mod 86400000 = clock env mod 86400000"
    by simp
  have "clock env - clock env mod 86400000 = 86400000 * (clock env div 86400000)"
    by (simp add: minus_mod_eq_mult_div)
  then show ?thesis using assms m
    by (simp add: dayStart_def utc_def algebra_simps)
qed

lemma daily_zero:
  "\<forall>e\<in>set (activityDocs env). \<not> (dayStart env i \<le> a_timestamp e \<and>
       a_timestamp e < addDays (cal env) (dayStart env i) 1) \<Longrightarrow>
   s_count (dailySnapshot env i) = 0"
  by (simp add: dailySnapshot_def Let_def filter_empty_conv)

lemma weekly_zero:
  "\<forall>e\<in>set (activityDocs env). \<not> (addDays (cal env) (dayStart env i) (- 7) \<le> a_timestamp e \<and>
       a_timestamp e < addDays (cal env) (dayStart env i) 1 \<and>
       a_address e \<notin> set SYSTEM_ADDRESSES) \<Longrightarrow>
   s_count (weeklySnapshot env i) = 0"
proof -
  assume a: "\<forall>e\<in>set (activityDocs env). \<not> (addDays (cal env) (dayStart env i) (- 7) \<le> a_timestamp e \<and>
       a_timestamp e < addDays (cal env) (dayStart env i) 1 \<and>
       a_address e \<notin> set SYSTEM_ADDRESSES)"
  have "filter (\<lambda>e. addDays (cal env) (dayStart env i) (- 7) \<le> a_timestamp e \<and>
       a_timestamp e < addDays (cal env) (dayStart env i) 1 \<and>
       a_address e \<notin> set SYSTEM_ADDRESSES) (activityDocs env) = []"
    using a by (simp add: filter_empty_conv)
  then show ?thesis
    by (simp add: weeklySnapshot_def Let_def groupStage_def countStage_def uniqueAddresses_def)
qed

text \<open>Unrolling a bounded quantifier over days, for evaluation.\<close>

lemma int_interval_insert: "a < b \<Longrightarrow> {a..<b::int} = insert a {a + 1..<b}"
  by auto

lemma ball_days: "(\<forall>i\<in>{a..<b::int}. P i) = (if a < b then P a \<and> (\<forall>i\<in>{a + 1..<b}. P i) else True)"
  by (simp add: int_interval_insert)


lemma backfill_history_all_ok:
  assumes "\<forall>i\<in>{0..<N}. \<not> queryFails env (dayStart env i) \<and>
             \<not> insertFails env (dailySnapshot env i) \<and> \<not> insertFails env (weeklySnapshot env i)"
  shows "backfillDailyTransactionHistory env N coll =
           (nat N, coll @ map (dailySnapshot env) [0..N - 1])"
    and "backfillWeeklyActiveAddressHistory env N coll' =
           (nat N, coll' @ map (weeklySnapshot env) [0..N - 1])"
proof -
  have d: "dailyLoop env N 0 0 coll = (Inr (0 + nat (N - 0)), coll @ map (dailySnapshot env) [0..N - 1])"
    using assms by (intro dailyLoop_all_ok) simp
  have w: "weeklyLoop env N 0 0 coll' = (Inr (0 + nat (N - 0)), coll' @ map (weeklySnapshot env) [0..N - 1])"
    using assms by (intro weeklyLoop_all_ok) simp
  show "backfillDailyTransactionHistory env N coll =
           (nat N, coll @ map (dailySnapshot env) [0..N - 1])"
    using d by (simp add: backfillDailyTransactionHistory_def)
  show "backfillWeeklyActiveAddressHistory env N coll' =
           (nat N, coll' @ map (weeklySnapshot env) [0..N - 1])"
    using w by (simp add: backfillWeeklyActiveAddressHistory_def)
qed

text \<open>The loop stops at the first day whose query or insert is rejected.\<close>

lemma dailyLoop_first_failure:
  "i \<le> k \<Longrightarrow> k < days \<Longrightarrow>
   (\<And>j. i \<le> j \<Longrightarrow> j < k \<Longrightarrow>
      \<not> queryFails env (dayStart env j) \<and> \<not> insertFails env (dailySnapshot env j)) \<Longrightarrow>
   queryFails env (dayStart env k) \<or> insertFails env (dailySnapshot env k) \<Longrightarrow>
   \<exists>e. dailyLoop env days i n coll = (Inl e, coll @ map (dailySnapshot env) [i..k - 1])"
proof (induction env days i n coll rule: dailyLoop.induct)
  case (1 env days i n coll)
  show ?case
  proof (cases "i = k")
    case True
    with "1.prems"(2,4) show ?thesis
      by (auto simp: dailyLoop.simps [of env days k])
  next
    case False
    with "1.prems"(1) have lt: "i < k" by simp
    with "1.prems"(2) have id: "i < days" by simp
    have ok: "\<not> queryFails env (dayStart env i)" "\<not> insertFails env (dailySnapshot env i)"
      using "1.prems"(3) [of i] lt by simp_all
    have later: "\<not> queryFails env (dayStart env j) \<and> \<not> insertFails env (dailySnapshot env j)"
      if "i + 1 \<le> j" "j < k" for j
      using "1.prems"(3) [of j] that by simp
    have "\<exists>e. dailyLoop env days (i + 1) (n + 1) (coll @ [dailySnapshot env i]) =
       (Inl e, (coll @ [dailySnapshot env i]) @ map (dailySnapshot env) [i + 1..k - 1])"
      using id ok lt "1.prems"(2,4) later by (intro "1.IH") simp_all
    then obtain e where rest:
      "dailyLoop env days (i + 1) (n + 1) (coll @ [dailySnapshot env i]) =
       (Inl e, (coll @ [dailySnapshot env i]) @ map (dailySnapshot env) [i + 1..k - 1])"
      by blast
    have up: "[i..k - 1] = i # [i + 1..k - 1]"
      using lt by (simp add: upto_rec1)
    show ?thesis
      using id ok rest by (simp add: dailyLoop.simps [of env days i] up)
  qed
qed

lemma weeklyLoop_first_failure:
  "i \<le> k \<Longrightarrow> k < days \<Longrightarrow>
   (\<And>j. i \<le> j \<Longrightarrow> j < k \<Longrightarrow>
      \<not> queryFails env (dayStart env j) \<and> \<not> insertFails env (weeklySnapshot env j)) \<Longrightarrow>
   queryFails env (dayStart env k) \<or> insertFails env (weeklySnapshot env k) \<Longrightarrow>
   \<exists>e. weeklyLoop env days i n coll = (Inl e, coll @ map (weeklySnapshot env) [i..k - 1])"
proof (induction env days i n coll rule: weeklyLoop.induct)
  case (1 env days i n coll)
  show ?case
  proof (cases "i = k")
    case True
    with "1.prems"(2,4) show ?thesis
      by (auto simp: weeklyLoop.simps [of env days k])
  next
    case False
    with "1.prems"(1) have lt: "i < k" by simp
    with "1.prems"(2) have id: "i < days" by simp
    have ok: "\<not> queryFails env (dayStart env i)" "\<not> insertFails env (weeklySnapshot env i)"
      using "1.prems"(3) [of i] lt by simp_all
    have later: "\<not> queryFails env (dayStart env j) \<and> \<not> insertFails env (weeklySnapshot env j)"
      if "i + 1 \<le> j" "j < k" for j
      using "1.prems"(3) [of j] that by simp
    have "\<exists>e. weeklyLoop env days (i + 1) (n + 1) (coll @ [weeklySnapshot env i]) =
       (Inl e, (coll @ [weeklySnapshot env i]) @ map (weeklySnapshot env) [i + 1..k - 1])"
      using id ok lt "1.prems"(2,4) later by (intro "1.IH") simp_all
    then obtain e where rest:
      "weeklyLoop env days (i + 1) (n + 1) (coll @ [weeklySnapshot env i]) =
       (Inl e, (coll @ [weeklySnapshot env i]) @ map (weeklySnapshot env) [i + 1..k - 1])"
      by blast
    have up: "[i..k - 1] = i # [i + 1..k - 1]"
      using lt by (simp add: upto_rec1)
    show ?thesis
      using id ok rest by (simp add: weeklyLoop.simps [of env days i] up)
  qed
qed



text \<open>
  C7, as the code has it. When no query and no insert of the run is rejected, backfilling
  \<open>N\<close> days of daily-transaction or weekly-active-address history returns \<open>N\<close> and
  appends exactly \<open>N\<close> snapshots, the one for each of the last \<open>N\<close> calendar days in
  turn, today first. When the query or the insert of day \<open>k\<close> is the first to be
  rejected, the run stops there: it returns 0 and has appended the snapshots of the \<open>k\<close>
  days before only. A day with no matching activity document gets a snapshot with count 0.
  In the UTC calendar the dates of the snapshots are pairwise distinct.
\<close>

theorem backfill_history_one_snapshot_per_day:
  "((\<forall>i\<in>{0..<N}. \<not> queryFails env (dayStart env i) \<and> \<not> insertFails env (dailySnapshot env i) \<and>
        \<not> insertFails env (weeklySnapshot env i)) \<longrightarrow>
      backfillDailyTransactionHistory env N coll =
        (nat N, coll @ map (dailySnapshot env) [0..N - 1]) \<and>
      backfillWeeklyActiveAddressHistory env N coll' =
        (nat N, coll' @ map (weeklySnapshot env) [0..N - 1])) \<and>
   (\<forall>k. 0 \<le> k \<and> k < N \<and>
        (\<forall>j\<in>{0..<k}. \<not> queryFails env (dayStart env j) \<and>
                       \<not> insertFails env (dailySnapshot env j)) \<and>
        (queryFails env (dayStart env k) \<or> insertFails env (dailySnapshot env k)) \<longrightarrow>
        backfillDailyTransactionHistory env N coll =
          (0, coll @ map (dailySnapshot env) [0..k - 1])) \<and>
   (\<forall>k. 0 \<le> k \<and> k < N \<and>
        (\<forall>j\<in>{0..<k}. \<not> queryFails env (dayStart env j) \<and>
                       \<not> insertFails env (weeklySnapshot env j)) \<and>
        (queryFails env (dayStart env k) \<or> insertFails env (weeklySnapshot env k)) \<longrightarrow>
        backfillWeeklyActiveAddressHistory env N coll' =
          (0, coll' @ map (weeklySnapshot env) [0..k - 1])) \<and>
   (\<forall>k. length (map (dailySnapshot env) [0..k - 1]) = nat k \<and>
        length (map (weeklySnapshot env) [0..k - 1]) = nat k) \<and>
   (\<forall>i. s_date (dailySnapshot env i) = dayStart env i \<and>
        s_date (weeklySnapshot env i) = dayStart env i) \<and>
   (\<forall>i. (\<forall>e\<in>set (activityDocs env). \<not> (dayStart env i \<le> a_timestamp e \<and>
            a_timestamp e < addDays (cal env) (dayStart env i) 1)) \<longrightarrow>
        s_count (dailySnapshot env i) = 0) \<and>
   (\<forall>i. (\<forall>e\<in>set (activityDocs env).
            \<not> (addDays (cal env) (dayStart env i) (- 7) \<le> a_timestamp e \<and>
               a_timestamp e < addDays (cal env) (dayStart env i) 1 \<and>
               a_address e \<notin> set SYSTEM_ADDRESSES)) \<longrightarrow>
        s_count (weeklySnapshot env i) = 0) \<and>
   (cal env = utc \<longrightarrow> distinct (map (dayStart env) [0..N - 1]))"
proof (intro conjI allI impI)
  assume ok: "\<forall>i\<in>{0..<N}. \<not> queryFails env (dayStart env i) \<and>
      \<not> insertFails env (dailySnapshot env i) \<and> \<not> insertFails env (weeklySnapshot env i)"
  show "backfillDailyTransactionHistory env N coll =
        (nat N, coll @ map (dailySnapshot env) [0..N - 1])"
    using ok by (rule backfill_history_all_ok)
  show "backfillWeeklyActiveAddressHistory env N coll' =
        (nat N, coll' @ map (weeklySnapshot env) [0..N - 1])"
    using ok by (rule backfill_history_all_ok)
next
  fix k
  assume a: "0 \<le> k \<and> k < N \<and>
        (\<forall>j\<in>{0..<k}. \<not> queryFails env (dayStart env j) \<and>
                       \<not> insertFails env (dailySnapshot env j)) \<and>
        (queryFails env (dayStart env k) \<or> insertFails env (dailySnapshot env k))"
  have "\<exists>e. dailyLoop env N 0 0 coll = (Inl e, coll @ map (dailySnapshot env) [0..k - 1])"
    using a by (intro dailyLoop_first_failure) simp_all
  then show "backfillDailyTransactionHistory env N coll =
          (0, coll @ map (dailySnapshot env) [0..k - 1])"
    by (auto simp: backfillDailyTransactionHistory_def)
next
  fix k
  assume a: "0 \<le> k \<and> k < N \<and>
        (\<forall>j\<in>{0..<k}. \<not> queryFails env (dayStart env j) \<and>
                       \<not> insertFails env (weeklySnapshot env j)) \<and>
        (queryFails env (dayStart env k) \<or> insertFails env (weeklySnapshot env k))"
  have "\<exists>e. weeklyLoop env N 0 0 coll' = (Inl e, coll' @ map (weeklySnapshot env) [0..k - 1])"
    using a by (intro weeklyLoop_first_failure) simp_all
  then show "backfillWeeklyActiveAddressHistory env N coll' =
          (0, coll' @ map (weeklySnapshot env) [0..k - 1])"
    by (auto simp: backfillWeeklyActiveAddressHistory_def)
next
  fix k
  show "length (map (dailySnapshot env) [0..k - 1]) = nat k" by simp
  show "length (map (weeklySnapshot env) [0..k - 1]) = nat k" by simp
next
  fix i
  show "s_date (dailySnapshot env i) = dayStart env i"
    by (simp add: dailySnapshot_def Let_def)
  show "s_date (weeklySnapshot env i) = dayStart env i"
    by (simp add: weeklySnapshot_def Let_def)
next
  fix i
  assume "\<forall>e\<in>set (activityDocs env). \<not> (dayStart env i \<le> a_timestamp e \<and>
            a_timestamp e < addDays (cal env) (dayStart env i) 1)"
  then show "s_count (dailySnapshot env i) = 0" by (rule daily_zero)
next
  fix i
  assume "\<forall>e\<in>set (activityDocs env).
            \<not> (addDays (cal env) (dayStart env i) (- 7) \<le> a_timestamp e \<and>
               a_timestamp e < addDays (cal env) (dayStart env i) 1 \<and>
               a_address e \<notin> set SYSTEM_ADDRESSES)"
  then show "s_count (weeklySnapshot env i) = 0" by (rule weekly_zero)
next
  assume u: "cal env = utc"
  have "inj_on (dayStart env) (set [0..N - 1])"
    by (rule inj_onI) (simp add: utc_dayStart [OF u])
  then show "distinct (map (dayStart env) [0..N - 1])" by (simp add: distinct_map)
qed

text \<open>
  Seven days in the UTC calendar with activity on three of them: seven snapshots of each
  kind, four of the daily ones with count 0. With the insert of the third day rejected,
  two snapshots are stored and 0 is returned.
\<close>

theorem backfill_history_one_snapshot_per_day_witness:
  "fst (backfillDailyTransactionHistory exampleHistEnv 7 []) = 7 \<and>
   map s_count (snd (backfillDailyTransactionHistory exampleHistEnv 7 [])) = [1, 0, 1, 0, 0, 2, 0] \<and>
   fst (backfillWeeklyActiveAddressHistory exampleHistEnv 7 []) = 7 \<and>
   map s_count (snd (backfillWeeklyActiveAddressHistory exampleHistEnv 7 [])) =
     [3, 3, 3, 2, 2, 2, 0] \<and>
   fst (backfillDailyTransactionHistory failingHistEnv 7 []) = 0 \<and>
   map s_count (snd (backfillDailyTransactionHistory failingHistEnv 7 [])) = [1, 0] \<and>
   fst (backfillWeeklyActiveAddressHistory failingHistEnv 7 []) = 0 \<and>
   map s_count (snd (backfillWeeklyActiveAddressHistory failingHistEnv 7 [])) = [3, 3]"
proof -
  note ok = backfill_history_one_snapshot_per_day [of 7 exampleHistEnv "[]" "[]"]
  note failing = backfill_history_one_snapshot_per_day [of 7 failingHistEnv "[]" "[]"]
  have d: "backfillDailyTransactionHistory exampleHistEnv 7 [] =
      (7, map (dailySnapshot exampleHistEnv) [0..6])"
    using ok [THEN conjunct1] by (simp add: exampleHistEnv_def)
  have w: "backfillWeeklyActiveAddressHistory exampleHistEnv 7 [] =
      (7, map (weeklySnapshot exampleHistEnv) [0..6])"
    using ok [THEN conjunct1] by (simp add: exampleHistEnv_def)
  have fd: "backfillDailyTransactionHistory failingHistEnv 7 [] =
      (0, map (dailySnapshot failingHistEnv) [0..1])"
    using failing [THEN conjunct2, THEN conjunct1, THEN spec, of 2]
    by (simp add: ball_days failingHistEnv_def exampleHistEnv_def dailySnapshot_def
          dayStart_def utc_def)
  have fw: "backfillWeeklyActiveAddressHistory failingHistEnv 7 [] =
      (0, map (weeklySnapshot failingHistEnv) [0..1])"
    using failing [THEN conjunct2, THEN conjunct2, THEN conjunct1, THEN spec, of 2]
    by (simp add: ball_days failingHistEnv_def exampleHistEnv_def weeklySnapshot_def
          dayStart_def utc_def)
  have cd: "map s_count (map (dailySnapshot exampleHistEnv) [0..6]) = [1, 0, 1, 0, 0, 2, 0]"
    by (simp add: exampleHistEnv_def dailySnapshot_def dayStart_def utc_def upto.simps)
  have cw: "map s_count (map (weeklySnapshot exampleHistEnv) [0..6]) = [3, 3, 3, 2, 2, 2, 0]"
    by (simp add: exampleHistEnv_def weeklySnapshot_def dayStart_def utc_def upto.simps
          SYSTEM_ADDRESSES_def groupStage_def countStage_def uniqueAddresses_def)
  have cfd: "map s_count (map (dailySnapshot failingHistEnv) [0..1]) = [1, 0]"
    by (simp add: failingHistEnv_def exampleHistEnv_def dailySnapshot_def dayStart_def utc_def
          upto.simps)
  have cfw: "map s_count (map (weeklySnapshot failingHistEnv) [0..1]) = [3, 3]"
    by (simp add: failingHistEnv_def exampleHistEnv_def weeklySnapshot_def dayStart_def utc_def
          upto.simps SYSTEM_ADDRESSES_def groupStage_def countStage_def uniqueAddresses_def)
  show ?thesis
    by (simp only: d w fd fw cd cw cfd cfw fst_conv snd_conv simp_thms)
qed

text \<open>
  The claim as stated fails: seven days are asked for, the database rejects the insert of
  the snapshot of the third day, and the run stores two snapshots and returns 0.
\<close>

theorem backfill_history_fewer_snapshots_counterexample:
  "fst (backfillDailyTransactionHistory failingHistEnv 7 []) = 0 \<and>
   length (snd (backfillDailyTransactionHistory failingHistEnv 7 [])) = 2"
  by (simp add: backfillDailyTransactionHistory_def dailyLoop.simps exampleHistEnv_def
        failingHistEnv_def dailySnapshot_def dayStart_def utc_def)

subsection \<open>Evaluating the example worlds\<close>

lemma lowerChar_hex:
  "lowerChar CHR ''0'' = CHR ''0''" "lowerChar CHR ''1'' = CHR ''1''" "lowerChar CHR ''2'' = CHR ''2''" "lowerChar CHR ''3'' = CHR ''3''" "lowerChar CHR ''4'' = CHR ''4''" "lowerChar CHR ''5'' = CHR ''5''" "lowerChar CHR ''6'' = CHR ''6''" "lowerChar CHR ''7'' = CHR ''7''" "lowerChar CHR ''8'' = CHR ''8''" "lowerChar CHR ''9'' = CHR ''9''" "lowerChar CHR ''a'' = CHR ''a''" "lowerChar CHR ''b'' = CHR ''b''" "lowerChar CHR ''c'' = CHR ''c''" "lowerChar CHR ''d'' = CHR ''d''" "lowerChar CHR ''e'' = CHR ''e''" "lowerChar CHR ''f'' = CHR ''f''" "lowerChar CHR ''x'' = CHR ''x''"
  "lowerChar CHR ''A'' = CHR ''a''" "lowerChar CHR ''B'' = CHR ''b''" "lowerChar CHR ''C'' = CHR ''c''" "lowerChar CHR ''D'' = CHR ''d''" "lowerChar CHR ''E'' = CHR ''e''" "lowerChar CHR ''F'' = CHR ''f''"
  by (simp_all add: lowerChar_def)

lemma lowerChar_idem: "lowerChar (lowerChar c) = lowerChar c"
  by (simp add: lowerChar_def)

lemma toLowerCase_idem: "toLowerCase (toLowerCase s) = toLowerCase s"
  by (simp add: toLowerCase_def lowerChar_idem)

lemmas world_defs = idleWorld_def dualWorld_def dualTx_def emptyDb_def depositWorld_def
  quietWorld_def quietDb_def rejectingWorld_def priorDb_def senderlessWorld_def senderlessTx_def
  brokenFindWorld_def pendingDb_def partialUpdateWorld_def brokenBlockWorld_def

lemmas doc_defs = depositDoc_def withdrawalDoc_def activityDoc_def ARBSYS_ADDRESS_def
  ZERO_ADDRESS_def toLowerCase_def lowerChar_hex fetchDepositAmount_def lowerTo_def
  isDeposit_def isWithdrawal_def blockTimestampOf_def insertActivity_def insertBridge_def
  findBridge_def findLastActivity_def newActivity_def newBridge_def

lemmas processNewBlocks_defs = processNewBlocks_def processNewBlocks_loop.simps
  processNewBlocks_block_def processNewBlocks_tx_def processNewBlocks_deposit_def startBlockOf_def

lemmas backfillBridgeActivity_defs = backfillBridgeActivity_def backfillBridgeActivity_loop.simps
  backfillBridgeActivity_block_def backfillBridgeActivity_tx_def backfill_activity_def
  backfill_deposit_def backfill_withdrawal_def backfillStart_def

subsection \<open>Lowercased addresses\<close>

lemma grows_new:
  assumes "grows w strict d d'"
  shows "emitted w strict (newActivity d d') (newBridge d d')"
  using assms unfolding grows_def newActivity_def newBridge_def by auto

lemma activitySource_address:
  assumes "activitySource w a"
  shows "\<exists>h t f. getTransaction w h = Inr (Some t) \<and> tx_from t = Some f \<and>
           a_address a = toLowerCase f"
proof -
  from assms obtain h t f ts i where "getTransaction w h = Inr (Some t)" "tx_from t = Some f"
    "a = activityDoc f ts i"
    unfolding activitySource_def by blast
  then show ?thesis by (auto simp: activityDoc_def)
qed

lemma bridgeSource_addresses:
  assumes "bridgeSource w strict as b"
  shows "\<exists>t f. getTransaction w (b_txHash b) = Inr (Some t) \<and> tx_from t = Some f \<and>
           b_from b = toLowerCase f \<and> b_to b = lowerTo t"
proof -
  from assms obtain h t f ts i where s: "getTransaction w h = Inr (Some t)" "tx_from t = Some f"
    "(isDeposit t \<and> b = depositDoc w h t f ts i) \<or>
     (isWithdrawal t \<and> b = withdrawalDoc h t f ts i)"
    unfolding bridgeSource_def by blast
  from s(3) have "b_txHash b = h \<and> b_from b = toLowerCase f \<and> b_to b = lowerTo t"
    by (auto simp: depositDoc_def withdrawalDoc_def isWithdrawal_def)
  with s(1,2) show ?thesis by auto
qed

lemma bridgeSource_activity:
  assumes "bridgeSource w strict as b" and "strict \<or> (\<forall>doc. \<not> insertActivityFails w doc)"
  shows "\<exists>a\<in>set as. a_address a = b_from b \<and> a_timestamp a = b_timestamp b \<and>
           a_blockNumber a = b_blockNumber b"
proof -
  from assms(1) obtain h t f ts i where
    s: "(isDeposit t \<and> b = depositDoc w h t f ts i) \<or>
        (isWithdrawal t \<and> b = withdrawalDoc h t f ts i)"
       "strict \<or> \<not> insertActivityFails w (activityDoc f ts i) \<longrightarrow>
          activityDoc f ts i \<in> set as"
    unfolding bridgeSource_def by blast
  from s(2) assms(2) have "activityDoc f ts i \<in> set as" by blast
  moreover from s(1) have "a_address (activityDoc f ts i) = b_from b \<and>
      a_timestamp (activityDoc f ts i) = b_timestamp b \<and>
      a_blockNumber (activityDoc f ts i) = b_blockNumber b"
    by (auto simp: depositDoc_def withdrawalDoc_def activityDoc_def)
  ultimately show ?thesis by blast
qed

text \<open>
  C9. Every address a scan persists is the lowercased form of the address the chain client
  returned: the address of an appended activity document and the sender of an appended
  bridge document are \<open>toLowerCase\<close> of the sender of a fetched transaction, and the
  recipient of an appended bridge document is \<open>null\<close> or \<open>toLowerCase\<close> of the recipient
  of that transaction. Lowercasing is idempotent and leaves the system addresses as they
  are, so the exclusion list and the distinct count do not depend on the casing.
\<close>

theorem persisted_addresses_lowercased:
  "(\<forall>a\<in>set (newActivity d (snd (processNewBlocks w d))).
      \<exists>h t f. getTransaction w h = Inr (Some t) \<and> tx_from t = Some f \<and>
              a_address a = toLowerCase f) \<and>
   (\<forall>b\<in>set (newBridge d (snd (processNewBlocks w d))).
      \<exists>t f. getTransaction w (b_txHash b) = Inr (Some t) \<and> tx_from t = Some f \<and>
            b_from b = toLowerCase f \<and> b_to b = lowerTo t) \<and>
   (\<forall>a\<in>set (newActivity d (snd (backfillBridgeActivity w d))).
      \<exists>h t f. getTransaction w h = Inr (Some t) \<and> tx_from t = Some f \<and>
              a_address a = toLowerCase f) \<and>
   (\<forall>b\<in>set (newBridge d (snd (backfillBridgeActivity w d))).
      \<exists>t f. getTransaction w (b_txHash b) = Inr (Some t) \<and> tx_from t = Some f \<and>
            b_from b = toLowerCase f \<and> b_to b = lowerTo t) \<and>
   (\<forall>t g. lowerTo t = Some g \<longrightarrow> (\<exists>g'. tx_to t = Some g' \<and> g = toLowerCase g')) \<and>
   (\<forall>s. toLowerCase (toLowerCase s) = toLowerCase s) \<and>
   (\<forall>a\<in>set SYSTEM_ADDRESSES. toLowerCase a = a)"
proof -
  have p: "emitted w True (newActivity d (snd (processNewBlocks w d)))
             (newBridge d (snd (processNewBlocks w d)))"
    using processNewBlocks_grows by (rule grows_new)
  have b: "emitted w False (newActivity d (snd (backfillBridgeActivity w d)))
             (newBridge d (snd (backfillBridgeActivity w d)))"
    using backfillBridgeActivity_grows by (rule grows_new)
  have l: "\<exists>g'. tx_to t = Some g' \<and> g = toLowerCase g'" if "lowerTo t = Some g" for t g
    using that by (auto simp: lowerTo_def split: option.splits if_splits)
  have s: "\<forall>a\<in>set SYSTEM_ADDRESSES. toLowerCase a = a"
    by (simp add: SYSTEM_ADDRESSES_def toLowerCase_def lowerChar_hex)
  show ?thesis
    using p b l s toLowerCase_idem
    unfolding emitted_def
    by (intro conjI ballI allI impI)
       (blast intro: activitySource_address bridgeSource_addresses)+
qed

theorem persisted_addresses_lowercased_witness:
  "map a_address (newActivity priorDb (snd (processNewBlocks depositWorld priorDb))) = [''0xaaa''] \<and>
   map b_from (newBridge priorDb (snd (processNewBlocks depositWorld priorDb))) = [''0xaaa''] \<and>
   map b_to (newBridge priorDb (snd (processNewBlocks depositWorld priorDb))) = [Some ''0xb1d6e''] \<and>
   map a_address (newActivity priorDb (snd (backfillBridgeActivity depositWorld priorDb))) = [''0xaaa''] \<and>
   map b_to (newBridge priorDb (snd (backfillBridgeActivity depositWorld priorDb))) = [Some ''0xb1d6e''] \<and>
   toLowerCase ''0xAAA'' = ''0xaaa'' \<and> toLowerCase ''0xB1D6E'' = ''0xb1d6e''"
  using persisted_addresses_lowercased [of priorDb depositWorld]
  by (simp add: world_defs doc_defs processNewBlocks_defs backfillBridgeActivity_defs)

subsection \<open>Bridge events and their activity events\<close>

lemma senderless_tx_skipped:
  assumes "getTransaction w h = Inr (Some t)" and "tx_from t = None \<or> tx_from t = Some []"
  shows "processNewBlocks_tx w i ts h d = d" and "backfillBridgeActivity_tx w i ts h s = s"
  using assms by (auto simp: processNewBlocks_tx_def backfillBridgeActivity_tx_def)

text \<open>
  C8, as the code has it. A transaction without a sender yields no document at all. Every
  bridge document that \<open>processNewBlocks\<close> appends comes with an activity document
  appended in the same run for the same sender, block and timestamp.
  \<open>backfillBridgeActivity\<close> gives the same when the database rejects no activity insert:
  there a rejected insert is caught on its own and the bridge rules are still applied.
\<close>

theorem bridge_event_accompanied_by_activity:
  "(getTransaction w h = Inr (Some t) \<and> (tx_from t = None \<or> tx_from t = Some []) \<longrightarrow>
      processNewBlocks_tx w i ts h d = d \<and> backfillBridgeActivity_tx w i ts h s = s) \<and>
   (\<forall>b\<in>set (newBridge d (snd (processNewBlocks w d))).
      \<exists>a\<in>set (newActivity d (snd (processNewBlocks w d))).
        a_address a = b_from b \<and> a_timestamp a = b_timestamp b \<and>
        a_blockNumber a = b_blockNumber b) \<and>
   ((\<forall>doc. \<not> insertActivityFails w doc) \<longrightarrow>
    (\<forall>b\<in>set (newBridge d (snd (backfillBridgeActivity w d))).
       \<exists>a\<in>set (newActivity d (snd (backfillBridgeActivity w d))).
         a_address a = b_from b \<and> a_timestamp a = b_timestamp b \<and>
         a_blockNumber a = b_blockNumber b))"
proof (intro conjI impI ballI)
  assume "getTransaction w h = Inr (Some t) \<and> (tx_from t = None \<or> tx_from t = Some [])"
  then show "processNewBlocks_tx w i ts h d = d" "backfillBridgeActivity_tx w i ts h s = s"
    by (simp_all add: senderless_tx_skipped)
next
  fix b assume "b \<in> set (newBridge d (snd (processNewBlocks w d)))"
  moreover have "emitted w True (newActivity d (snd (processNewBlocks w d)))
             (newBridge d (snd (processNewBlocks w d)))"
    using processNewBlocks_grows by (rule grows_new)
  ultimately have "bridgeSource w True (newActivity d (snd (processNewBlocks w d))) b"
    by (simp add: emitted_def)
  then show "\<exists>a\<in>set (newActivity d (snd (processNewBlocks w d))).
        a_address a = b_from b \<and> a_timestamp a = b_timestamp b \<and>
        a_blockNumber a = b_blockNumber b"
    by (rule bridgeSource_activity) simp
next
  fix b assume ok: "\<forall>doc. \<not> insertActivityFails w doc"
    and "b \<in> set (newBridge d (snd (backfillBridgeActivity w d)))"
  moreover have "emitted w False (newActivity d (snd (backfillBridgeActivity w d)))
             (newBridge d (snd (backfillBridgeActivity w d)))"
    using backfillBridgeActivity_grows by (rule grows_new)
  ultimately have "bridgeSource w False (newActivity d (snd (backfillBridgeActivity w d))) b"
    by (simp add: emitted_def)
  then show "\<exists>a\<in>set (newActivity d (snd (backfillBridgeActivity w d))).
        a_address a = b_from b \<and> a_timestamp a = b_timestamp b \<and>
        a_blockNumber a = b_blockNumber b"
    by (rule bridgeSource_activity) (simp add: ok)
qed

theorem bridge_event_accompanied_by_activity_witness:
  "processNewBlocks_tx senderlessWorld 1 1700000000000 ''0xt9'' emptyDb = emptyDb \<and>
   backfillBridgeActivity_tx senderlessWorld 1 1700000000000 ''0xt9''
     \<lparr>bf_db = emptyDb, addressesAdded = 0, depositsFound = 0, withdrawalsFound = 0\<rparr> =
     \<lparr>bf_db = emptyDb, addressesAdded = 0, depositsFound = 0, withdrawalsFound = 0\<rparr> \<and>
   map b_txHash (newBridge priorDb (snd (processNewBlocks depositWorld priorDb))) = [''0xtx100''] \<and>
   map a_blockNumber (newActivity priorDb (snd (processNewBlocks depositWorld priorDb))) = [100] \<and>
   map b_txHash (newBridge priorDb (snd (backfillBridgeActivity depositWorld priorDb))) = [''0xtx100''] \<and>
   map a_blockNumber (newActivity priorDb (snd (backfillBridgeActivity depositWorld priorDb))) = [100]"
  using
    bridge_event_accompanied_by_activity [of senderlessWorld "''0xt9''" senderlessTx 1
      1700000000000 emptyDb
      "\<lparr>bf_db = emptyDb, addressesAdded = 0, depositsFound = 0, withdrawalsFound = 0\<rparr>"]
    bridge_event_accompanied_by_activity [of depositWorld "''0xtx100''" senderlessTx 1
      1700000000000 priorDb
      "\<lparr>bf_db = emptyDb, addressesAdded = 0, depositsFound = 0, withdrawalsFound = 0\<rparr>"]
  by (simp add: world_defs doc_defs processNewBlocks_defs backfillBridgeActivity_defs)

text \<open>
  The claim as stated fails for the historical scan: when the database rejects the activity
  insert, the deposit of block 100 is persisted and no activity document is.
\<close>

theorem bridge_event_without_activity_counterexample:
  "map b_txHash (newBridge priorDb (snd (backfillBridgeActivity rejectingWorld priorDb))) =
     [''0xtx100''] \<and>
   newActivity priorDb (snd (backfillBridgeActivity rejectingWorld priorDb)) = []"
  by (simp add: world_defs doc_defs backfillBridgeActivity_defs)

subsection \<open>The resume point\<close>










subsection \<open>Deduplication of bridge events\<close>

lemma backfill_deposit_dedup:
  "\<exists>bs. bridgeActivity (bf_db (backfill_deposit w i ts h t f s)) = bridgeActivity (bf_db s) @ bs \<and>
        (bs = [] \<or> (bs = [depositDoc w h t f ts i] \<and> h \<notin> b_txHash ` set (bridgeActivity (bf_db s))))"
  by (auto simp: backfill_deposit_def insertBridge_def findBridge_def find_None_iff
        split: option.splits)

lemma backfill_withdrawal_dedup:
  "\<exists>bs. bridgeActivity (bf_db (backfill_withdrawal w i ts h t f s)) = bridgeActivity (bf_db s) @ bs \<and>
        (bs = [] \<or> (bs = [withdrawalDoc h t f ts i] \<and> h \<notin> b_txHash ` set (bridgeActivity (bf_db s))))"
  by (auto simp: backfill_withdrawal_def insertBridge_def findBridge_def find_None_iff
        split: option.splits)

text \<open>
  One transaction of the historical scan appends at most one bridge document, and only
  under a transaction hash that no persisted bridge document has.
\<close>

lemma backfillBridgeActivity_tx_dedup:
  "\<exists>bs. bridgeActivity (bf_db (backfillBridgeActivity_tx w i ts h s)) =
          bridgeActivity (bf_db s) @ bs \<and>
        (bs = [] \<or> (\<exists>b. bs = [b] \<and> b_txHash b = h \<and>
                         h \<notin> b_txHash ` set (bridgeActivity (bf_db s))))"
proof (cases "\<exists>t f. getTransaction w h = Inr (Some t) \<and> tx_from t = Some f \<and> f \<noteq> []")
  case False
  then have "backfillBridgeActivity_tx w i ts h s = s"
    by (auto simp: backfillBridgeActivity_tx_def split: sum.splits option.splits)
  then show ?thesis by simp
next
  case True
  then obtain t f where src: "getTransaction w h = Inr (Some t)" "tx_from t = Some f" "f \<noteq> []"
    by blast
  define s1 where "s1 = backfill_activity w (activityDoc f ts i) s"
  define s2 where "s2 = (if isDeposit t then backfill_deposit w i ts h t f s1 else s1)"
  define s3 where "s3 = (if isWithdrawal t then backfill_withdrawal w i ts h t f s2 else s2)"
  have res: "backfillBridgeActivity_tx w i ts h s = s3"
    using src by (simp add: backfillBridgeActivity_tx_def s1_def s2_def s3_def Let_def)
  have b1: "bridgeActivity (bf_db s1) = bridgeActivity (bf_db s)"
    by (simp add: s1_def backfill_activity_db)
  obtain bs2 where b2: "bridgeActivity (bf_db s2) = bridgeActivity (bf_db s1) @ bs2"
    "bs2 = [] \<or> (bs2 = [depositDoc w h t f ts i] \<and> h \<notin> b_txHash ` set (bridgeActivity (bf_db s1)))"
    using backfill_deposit_dedup [of w i ts h t f s1] by (cases "isDeposit t") (auto simp: s2_def)
  obtain bs3 where b3: "bridgeActivity (bf_db s3) = bridgeActivity (bf_db s2) @ bs3"
    "bs3 = [] \<or> (bs3 = [withdrawalDoc h t f ts i] \<and> h \<notin> b_txHash ` set (bridgeActivity (bf_db s2)))"
    using backfill_withdrawal_dedup [of w i ts h t f s2] by (cases "isWithdrawal t") (auto simp: s3_def)
  have all: "bridgeActivity (bf_db s3) = bridgeActivity (bf_db s) @ (bs2 @ bs3)"
    using b1 b2(1) b3(1) by simp
  have "bs2 @ bs3 = [] \<or> (\<exists>b. bs2 @ bs3 = [b] \<and> b_txHash b = h \<and>
                         h \<notin> b_txHash ` set (bridgeActivity (bf_db s)))"
    using b1 b2 b3 by (auto simp: depositDoc_def withdrawalDoc_def)
  with all show ?thesis unfolding res by blast
qed

lemma dedup_step:
  assumes "dedup d (bf_db s)"
  shows "dedup d (bf_db (backfillBridgeActivity_tx w i ts h s))"
proof -
  from assms obtain bs where bs: "bridgeActivity (bf_db s) = bridgeActivity d @ bs"
    "distinct (map b_txHash bs)" "\<forall>b\<in>set bs. b_txHash b \<notin> b_txHash ` set (bridgeActivity d)"
    unfolding dedup_def by blast
  obtain bs' where bs': "bridgeActivity (bf_db (backfillBridgeActivity_tx w i ts h s)) =
          bridgeActivity (bf_db s) @ bs'"
    "bs' = [] \<or> (\<exists>b. bs' = [b] \<and> b_txHash b = h \<and> h \<notin> b_txHash ` set (bridgeActivity (bf_db s)))"
    using backfillBridgeActivity_tx_dedup by blast
  have "bridgeActivity (bf_db (backfillBridgeActivity_tx w i ts h s)) = bridgeActivity d @ (bs @ bs')"
    using bs(1) bs'(1) by simp
  moreover have "distinct (map b_txHash (bs @ bs'))"
    using bs(1,2) bs'(2) by (fastforce simp: image_iff)
  moreover have "\<forall>b\<in>set (bs @ bs'). b_txHash b \<notin> b_txHash ` set (bridgeActivity d)"
    using bs(1,3) bs'(2) by auto
  ultimately show ?thesis unfolding dedup_def by blast
qed

text \<open>
  The historical scan does what the specification asks: the bridge documents it appends
  have pairwise different transaction hashes, none of which was persisted before, so a
  collection with unique hashes keeps them unique however often a range is scanned.
\<close>

lemma backfillBridgeActivity_dedup:
  "distinct (map b_txHash (newBridge d (snd (backfillBridgeActivity w d))))"
  "\<forall>b\<in>set (newBridge d (snd (backfillBridgeActivity w d))).
     b_txHash b \<notin> b_txHash ` set (bridgeActivity d)"
  "distinct (map b_txHash (bridgeActivity d)) \<Longrightarrow>
   distinct (map b_txHash (bridgeActivity (snd (backfillBridgeActivity w d))))"
proof -
  have "dedup d (snd (backfillBridgeActivity w d))"
  proof (rule backfillBridgeActivity_preserves)
    show "dedup d d" by (simp add: dedup_def)
  next
    fix i ts h and s :: backfillState
    assume "dedup d (bf_db s)"
    then show "dedup d (bf_db (backfillBridgeActivity_tx w i ts h s))" by (rule dedup_step)
  qed
  then obtain bs where bs: "bridgeActivity (snd (backfillBridgeActivity w d)) = bridgeActivity d @ bs"
    "distinct (map b_txHash bs)" "\<forall>b\<in>set bs. b_txHash b \<notin> b_txHash ` set (bridgeActivity d)"
    unfolding dedup_def by blast
  then have n: "newBridge d (snd (backfillBridgeActivity w d)) = bs"
    by (simp add: newBridge_def)
  show "distinct (map b_txHash (newBridge d (snd (backfillBridgeActivity w d))))"
    using bs(2) n by simp
  show "\<forall>b\<in>set (newBridge d (snd (backfillBridgeActivity w d))).
     b_txHash b \<notin> b_txHash ` set (bridgeActivity d)"
    using bs(3) n by simp
  show "distinct (map b_txHash (bridgeActivity (snd (backfillBridgeActivity w d))))"
    if "distinct (map b_txHash (bridgeActivity d))"
    using that bs by (fastforce simp: image_iff)
qed

text \<open>
  C1 at its failing input. The incremental scan inserts without looking the hash up: one
  scan of block 1 of \<open>dualWorld\<close> leaves two bridge documents with the hash \<open>0xt1\<close>, the
  second written while the first was already persisted. The historical scan of the same
  block leaves one.
\<close>

theorem processNewBlocks_duplicates_txHash:
  "map b_txHash (bridgeActivity (snd (processNewBlocks dualWorld emptyDb))) = [''0xt1'', ''0xt1''] \<and>
   \<not> distinct (map b_txHash (bridgeActivity (snd (processNewBlocks dualWorld emptyDb)))) \<and>
   map b_txHash (bridgeActivity (snd (backfillBridgeActivity dualWorld emptyDb))) = [''0xt1'']"
  by (simp add: world_defs doc_defs processNewBlocks_defs backfillBridgeActivity_defs)

subsection \<open>Events per transaction\<close>

lemma processNewBlocks_tx_at_most:
  "length (newActivity d (processNewBlocks_tx w i ts h d)) \<le> 1 \<and>
   length (newBridge d (processNewBlocks_tx w i ts h d)) \<le> 2"
  by (auto simp: processNewBlocks_tx_def processNewBlocks_deposit_def insertActivity_def
        insertBridge_def newActivity_def newBridge_def Let_def split: sum.splits option.splits)

lemma backfillBridgeActivity_tx_at_most:
  "length (newActivity (bf_db s) (bf_db (backfillBridgeActivity_tx w i ts h s))) \<le> 1 \<and>
   length (newBridge (bf_db s) (bf_db (backfillBridgeActivity_tx w i ts h s))) \<le> 1"
proof -
  obtain bs where "bridgeActivity (bf_db (backfillBridgeActivity_tx w i ts h s)) =
          bridgeActivity (bf_db s) @ bs" "bs = [] \<or> (\<exists>b. bs = [b])"
    using backfillBridgeActivity_tx_dedup [of w i ts h s] by blast
  then have "length (newBridge (bf_db s) (bf_db (backfillBridgeActivity_tx w i ts h s))) \<le> 1"
    by (auto simp: newBridge_def)
  moreover have "length (newActivity (bf_db s) (bf_db (backfillBridgeActivity_tx w i ts h s))) \<le> 1"
    by (auto simp: backfillBridgeActivity_tx_def newActivity_def Let_def backfill_activity_db
          backfill_deposit_db backfill_withdrawal_db split: sum.splits option.splits)
  ultimately show ?thesis by simp
qed

text \<open>
  C2 at its failing input. The transaction \<open>0xt1\<close> is of type 105 and is sent to the ArbSys
  address with a positive value. The incremental scan tests the two bridge rules one after
  the other, not as alternatives, and writes one activity document, a deposit and a
  withdrawal for it.
\<close>

theorem processNewBlocks_tx_deposit_and_withdrawal:
  "isDeposit dualTx \<and> isWithdrawal dualTx \<and>
   length (addressActivity (processNewBlocks_tx dualWorld 1 1700000000000 ''0xt1'' emptyDb)) = 1 \<and>
   map b_type (bridgeActivity (processNewBlocks_tx dualWorld 1 1700000000000 ''0xt1'' emptyDb)) =
     [''deposit'', ''withdrawal''] \<and>
   map b_type (bridgeActivity (bf_db (backfillBridgeActivity_tx dualWorld 1 1700000000000 ''0xt1''
      \<lparr>bf_db = emptyDb, addressesAdded = 0, depositsFound = 0, withdrawalsFound = 0\<rparr>))) =
     [''deposit'']"
  by (simp add: world_defs doc_defs processNewBlocks_defs backfillBridgeActivity_defs)

subsection \<open>Which operations throw to their callers\<close>










end
